theory Spec2Isabelle
  imports Main
begin

section \<open>Strings, errors and the external capabilities\<close>

text \<open>
  Python strings are modelled as \<open>string\<close>, one \<open>char\<close> per code point below 256.
  An exception is a value of type \<open>error\<close>; a function that may raise returns
  \<open>error + 'a\<close> with \<open>Inl\<close> for the raise.
\<close>

datatype error =
  ValueError | IndexError | OverflowError | HTTPError int | TransportError | ParserError

text \<open>\<open>str.isspace\<close> on the code points below 256, which is what \<open>str.strip()\<close> removes
  and what the regular expression class \<open>\s\<close> matches.\<close>

definition isspace :: "char \<Rightarrow> bool" where
  "isspace c = (c \<in> set [CHR 0x09, CHR 0x0A, CHR 0x0B, CHR 0x0C, CHR 0x0D, CHR 0x1C, CHR 0x1D,
                          CHR 0x1E, CHR 0x1F, CHR 0x20, CHR 0x85, CHR 0xA0])"

definition py_strip :: "string \<Rightarrow> string" where
  "py_strip s = rev (dropWhile isspace (rev (dropWhile isspace s)))"

text \<open>Python truthiness of an optional string: \<open>None\<close> and the empty string are falsy.\<close>

definition truthy :: "string option \<Rightarrow> bool" where
  "truthy v = (case v of None \<Rightarrow> False | Some s \<Rightarrow> s \<noteq> [])"

definition py_or :: "string option \<Rightarrow> string option \<Rightarrow> string option" where
  "py_or a b = (if truthy a then a else b)"

definition startswith :: "string \<Rightarrow> string \<Rightarrow> bool" where
  "startswith s p = (take (length p) s = p)"

text \<open>\<open>s.split(c, 1)\<close> when \<open>c\<close> occurs in \<open>s\<close>, and \<open>(s, '')\<close> when it does not.\<close>

definition split1 :: "char \<Rightarrow> string \<Rightarrow> string \<times> string" where
  "split1 c s = (takeWhile (\<lambda>x. x \<noteq> c) s, drop 1 (dropWhile (\<lambda>x. x \<noteq> c) s))"

text \<open>A tag of a parsed document, as far as the program reads it: \<open>.string\<close>,
  \<open>.get_text(" ", strip=True)\<close> and \<open>.get("content")\<close>. A tag object is always truthy.\<close>

record tag =
  tag_string :: "string option"
  tag_text :: string
  tag_content :: "string option"

text \<open>A parsed document (a BeautifulSoup object), as far as the program queries it:
  \<open>find("meta", attrs={"name": n})\<close>, \<open>find("meta", attrs={"property": n})\<close>, \<open>.title\<close>,
  \<open>find(name)\<close>, \<open>find_all("p")\<close>, the \<open>href\<close> values of \<open>find_all("a", href=True)\<close> in
  document order, and the document object itself as a node.\<close>

record soup =
  find_meta_name :: "string \<Rightarrow> tag option"
  find_meta_property :: "string \<Rightarrow> tag option"
  soup_title :: "tag option"
  find_first :: "string \<Rightarrow> tag option"
  find_all_p :: "tag list"
  a_hrefs :: "string list"
  soup_root :: tag

text \<open>A Python float, as far as the crawl reads one: a finite value \<open>m * 2\<^sup>k\<close>, an infinity
  or a NaN. \<open>float_pos d\<close> is the comparison \<open>d > 0\<close>.\<close>

datatype pyfloat = Dyadic int int | PosInf | NegInf | NaN

fun float_pos :: "pyfloat \<Rightarrow> bool" where
  "float_pos (Dyadic m k) = (0 < m)"
| "float_pos PosInf = True"
| "float_pos NegInf = False"
| "float_pos NaN = False"

record response =
  resp_text :: string
  resp_url :: string
  status_code :: int

text \<open>
  The capabilities the program consumes and does not define:
  \<^item> \<open>fnmatch\<close>: \<open>fnmatch.fnmatch(target, pattern)\<close>;
  \<^item> \<open>netloc_ok\<close>: whether \<open>urlsplit\<close> accepts a network location (it raises
    \<open>ValueError\<close> on unbalanced brackets, an invalid bracketed host, or characters that
    normalise to delimiters);
  \<^item> \<open>urljoin\<close>: \<open>urllib.parse.urljoin(base, href)\<close>;
  \<^item> \<open>http_get\<close>: the outcome of the \<open>k\<close>-th call of \<open>Session.get\<close> of the run, on a URL:
    a transport error or a response;
  \<^item> \<open>bs4\<close>: \<open>BeautifulSoup(html, "lxml")\<close>;
  \<^item> \<open>summary\<close>: \<open>Document(html).summary(html_partial=True)\<close> of the readability library;
  \<^item> \<open>sleep\<close>: \<open>time.sleep(d)\<close>, which returns after the pause or raises (\<open>OverflowError\<close>
    when \<open>d\<close> is too large for the clock, an infinity included).
\<close>

record env =
  fnmatch :: "string \<Rightarrow> string \<Rightarrow> bool"
  netloc_ok :: "string \<Rightarrow> bool"
  urljoin :: "string \<Rightarrow> string \<Rightarrow> error + string"
  http_get :: "nat \<Rightarrow> string \<Rightarrow> error + response"
  bs4 :: "string \<Rightarrow> error + soup"
  summary :: "string \<Rightarrow> error + string"
  sleep :: "pyfloat \<Rightarrow> error + unit"

section \<open>The standard library's URL parsing, as \<open>normalize_url\<close> uses it\<close>

text \<open>
  \<open>urlsplit\<close>, \<open>urlparse\<close>, \<open>urlunsplit\<close>, \<open>urlunparse\<close> and \<open>urldefrag\<close> of
  \<open>urllib.parse\<close>, after the source of CPython 3.12, on strings. The checks of the
  network location that make \<open>urlsplit\<close> raise \<open>ValueError\<close> are the parameter
  \<open>netloc_ok\<close>; an empty network location never raises.
\<close>

definition c0_or_space :: "char \<Rightarrow> bool" where
  "c0_or_space c = ((of_char c :: nat) \<le> 32)"

definition unsafe_byte :: "char \<Rightarrow> bool" where
  "unsafe_byte c = (c \<in> set [CHR 0x09, CHR 0x0D, CHR 0x0A])"

definition ascii_upper :: string where
  "ascii_upper = ''ABCDEFGHIJKLMNOPQRSTUVWXYZ''"

definition ascii_lower :: string where
  "ascii_lower = ''abcdefghijklmnopqrstuvwxyz''"

definition ascii_alpha :: "char \<Rightarrow> bool" where
  "ascii_alpha c = (c \<in> set (ascii_lower @ ascii_upper))"

definition scheme_char :: "char \<Rightarrow> bool" where
  "scheme_char c = (c \<in> set (ascii_lower @ ascii_upper @ ''0123456789+-.''))"

definition to_lower :: "char \<Rightarrow> char" where
  "to_lower c = (case map_of (zip ascii_upper ascii_lower) c of Some l \<Rightarrow> l | None \<Rightarrow> c)"

definition uses_netloc :: "string list" where
  "uses_netloc = ['''', ''ftp'', ''http'', ''gopher'', ''nntp'', ''telnet'', ''imap'', ''wais'',
     ''file'', ''mms'', ''https'', ''shttp'', ''snews'', ''prospero'', ''rtsp'', ''rtsps'',
     ''rtspu'', ''rsync'', ''svn'', ''svn+ssh'', ''sftp'', ''nfs'', ''git'', ''git+ssh'', ''ws'',
     ''wss'', ''itms-services'']"

definition uses_params :: "string list" where
  "uses_params = ['''', ''ftp'', ''hdl'', ''prospero'', ''http'', ''imap'', ''https'', ''shttp'',
     ''rtsp'', ''rtsps'', ''rtspu'', ''sip'', ''sips'', ''mms'', ''sftp'', ''tel'']"

record parse_result =
  scheme :: string
  netloc :: string
  path :: string
  params :: string
  query :: string
  fragment :: string

definition netloc_delim :: "char \<Rightarrow> bool" where
  "netloc_delim c = (c \<in> set ''/?#'')"

text \<open>\<open>urlsplit(url)\<close>: leading control characters and spaces are stripped, tabs and
  line breaks removed, the scheme is the lower-cased text before the first colon when that
  text starts with a letter and consists of scheme characters, the network location is what
  follows \<open>//\<close> up to the next delimiter, then the fragment and the query are split off.\<close>

definition urlsplit :: "env \<Rightarrow> string \<Rightarrow> error + parse_result" where
  "urlsplit e url0 =
     (let url1 = filter (\<lambda>c. \<not> unsafe_byte c) (dropWhile c0_or_space url0);
          i = length (takeWhile (\<lambda>c. c \<noteq> CHR '':'') url1);
          has_scheme = (CHR '':'' \<in> set url1 \<and> 0 < i \<and> ascii_alpha (hd url1)
                         \<and> list_all scheme_char (take i url1));
          sch = (if has_scheme then map to_lower (take i url1) else []);
          url2 = (if has_scheme then drop (Suc i) url1 else url1);
          has_netloc = (take 2 url2 = ''//'');
          nl = (if has_netloc then takeWhile (\<lambda>c. \<not> netloc_delim c) (drop 2 url2) else []);
          url3 = (if has_netloc then dropWhile (\<lambda>c. \<not> netloc_delim c) (drop 2 url2) else url2)
      in if has_netloc \<and> nl \<noteq> [] \<and> \<not> netloc_ok e nl then Inl ValueError
         else let (url4, frag) = split1 CHR ''#'' url3;
                  (url5, qry) = split1 CHR ''?'' url4
              in Inr \<lparr>scheme = sch, netloc = nl, path = url5, params = [], query = qry,
                       fragment = frag\<rparr>)"

text \<open>\<open>_splitparams(url)\<close>, called only when \<open>url\<close> contains a semicolon: the parameters
  start at the first semicolon of the last path segment.\<close>

definition splitparams :: "string \<Rightarrow> string \<times> string" where
  "splitparams url =
     (if CHR ''/'' \<in> set url then
        (let k = length url - Suc (length (takeWhile (\<lambda>c. c \<noteq> CHR ''/'') (rev url)));
             seg = drop k url
         in if CHR '';'' \<in> set seg
            then (let i = k + length (takeWhile (\<lambda>c. c \<noteq> CHR '';'') seg)
                  in (take i url, drop (Suc i) url))
            else (url, []))
      else (let i = length (takeWhile (\<lambda>c. c \<noteq> CHR '';'') url)
            in (take i url, drop (Suc i) url)))"

definition urlparse :: "env \<Rightarrow> string \<Rightarrow> error + parse_result" where
  "urlparse e url =
     (case urlsplit e url of
        Inl err \<Rightarrow> Inl err
      | Inr r \<Rightarrow>
          if scheme r \<in> set uses_params \<and> CHR '';'' \<in> set (path r)
          then (let (p, a) = splitparams (path r) in Inr (r\<lparr>path := p, params := a\<rparr>))
          else Inr r)"

definition urlunsplit :: "string \<Rightarrow> string \<Rightarrow> string \<Rightarrow> string \<Rightarrow> string \<Rightarrow> string" where
  "urlunsplit sch nl url qry frag =
     (let url1 = (if nl \<noteq> [] \<or> (sch \<noteq> [] \<and> sch \<in> set uses_netloc \<and> take 2 url \<noteq> ''//'')
                  then ''//'' @ nl @ (if url \<noteq> [] \<and> take 1 url \<noteq> ''/'' then ''/'' @ url else url)
                  else url);
          url2 = (if sch \<noteq> [] then sch @ '':'' @ url1 else url1);
          url3 = (if qry \<noteq> [] then url2 @ ''?'' @ qry else url2)
      in if frag \<noteq> [] then url3 @ ''#'' @ frag else url3)"

definition urlunparse :: "parse_result \<Rightarrow> string" where
  "urlunparse r =
     urlunsplit (scheme r) (netloc r)
       (if params r \<noteq> [] then path r @ '';'' @ params r else path r) (query r) (fragment r)"

definition urldefrag :: "env \<Rightarrow> string \<Rightarrow> error + (string \<times> string)" where
  "urldefrag e url =
     (if CHR ''#'' \<in> set url then
        (case urlparse e url of
           Inl err \<Rightarrow> Inl err
         | Inr r \<Rightarrow> Inr (urlunparse (r\<lparr>fragment := []\<rparr>), fragment r))
      else Inr (url, []))"

text \<open>\<open>str.lower()\<close> on the code points below 256, and the \<open>hostname\<close> of a parse result:
  the network location without the user information (up to the last \<open>@\<close>) and without the
  port, in lower case except for the zone of a scoped address; \<open>None\<close> when it is empty.\<close>

definition str_lower :: "char \<Rightarrow> char" where
  "str_lower c =
     (let n = (of_char c :: nat)
      in if (0x41 \<le> n \<and> n \<le> 0x5A) \<or> (0xC0 \<le> n \<and> n \<le> 0xDE \<and> n \<noteq> 0xD7)
         then char_of (n + 0x20) else c)"

definition hostname :: "parse_result \<Rightarrow> string option" where
  "hostname r =
     (let hostinfo = rev (takeWhile (\<lambda>c. c \<noteq> CHR ''@'') (rev (netloc r)));
          host = (if CHR ''['' \<in> set hostinfo
                  then takeWhile (\<lambda>c. c \<noteq> CHR '']'')
                         (drop 1 (dropWhile (\<lambda>c. c \<noteq> CHR ''['') hostinfo))
                  else takeWhile (\<lambda>c. c \<noteq> CHR '':'') hostinfo)
      in if host = [] then None
         else Some (map str_lower (takeWhile (\<lambda>c. c \<noteq> CHR ''%'') host)
                    @ dropWhile (\<lambda>c. c \<noteq> CHR ''%'') host))"

section \<open>extractors/utils.py\<close>

definition normalize_url :: "env \<Rightarrow> string option \<Rightarrow> error + string option" where
  "normalize_url e url =
     (if \<not> truthy url then Inr None
      else case urldefrag e (py_strip (the url)) of
        Inl err \<Rightarrow> Inl err
      | Inr (url1, _) \<Rightarrow>
          (case urlparse e url1 of
             Inl err \<Rightarrow> Inl err
           | Inr parsed \<Rightarrow>
               if scheme parsed = [] then Inr None
               else if scheme parsed \<in> set [''http'', ''https''] \<and> path parsed = []
               then Inr (Some (scheme parsed @ ''://'' @ netloc parsed @ ''/''))
               else Inr (Some url1)))"

text \<open>\<open>fetch_html\<close>: the \<open>k\<close>-th request of the run. \<open>raise_for_status\<close> raises on a status
  from 400 to 599, so such a response is an exception of \<open>fetch_html\<close>, like a transport
  error.\<close>

definition fetch_html :: "env \<Rightarrow> nat \<Rightarrow> string \<Rightarrow> error + (string \<times> string \<times> int)" where
  "fetch_html e k url =
     (case http_get e k url of
        Inl err \<Rightarrow> Inl err
      | Inr resp \<Rightarrow>
          if 400 \<le> status_code resp \<and> status_code resp < 600
          then Inl (HTTPError (status_code resp))
          else Inr (resp_text resp, resp_url resp, status_code resp))"

text \<open>The loop of \<open>find_links\<close> over the anchors' \<open>href\<close> values; \<open>links\<close> is the list built
  so far.\<close>

fun collect_links :: "env \<Rightarrow> string \<Rightarrow> string list \<Rightarrow> string list \<Rightarrow> error + string list" where
  "collect_links e base_url [] links = Inr links"
| "collect_links e base_url (href # hrefs) links =
     (if href = [] then collect_links e base_url hrefs links
      else if list_ex (startswith href) [''mailto:'', ''tel:'', ''javascript:'', ''#'']
      then collect_links e base_url hrefs links
      else case urljoin e base_url href of
        Inl err \<Rightarrow> Inl err
      | Inr abs_url \<Rightarrow>
          (case normalize_url e (Some abs_url) of
             Inl err \<Rightarrow> Inl err
           | Inr n \<Rightarrow>
               if truthy n then collect_links e base_url hrefs (links @ [the n])
               else collect_links e base_url hrefs links))"

text \<open>\<open>list(dict.fromkeys(links))\<close>: the first occurrence of every element, in order.\<close>

fun fromkeys :: "string list \<Rightarrow> string list \<Rightarrow> string list" where
  "fromkeys seen [] = []"
| "fromkeys seen (x # xs) =
     (if x \<in> set seen then fromkeys seen xs else x # fromkeys (seen @ [x]) xs)"

definition find_links :: "env \<Rightarrow> string \<Rightarrow> string \<Rightarrow> error + string list" where
  "find_links e html base_url =
     (case bs4 e html of
        Inl err \<Rightarrow> Inl err
      | Inr sp \<Rightarrow>
          (case collect_links e base_url (a_hrefs sp) [] of
             Inl err \<Rightarrow> Inl err
           | Inr links \<Rightarrow> Inr (fromkeys [] links)))"

text \<open>\<open>pattern.replace("**", "*")\<close>: occurrences are replaced from the left, without
  overlap.\<close>

fun replace_stars :: "string \<Rightarrow> string" where
  "replace_stars [] = []"
| "replace_stars [c] = [c]"
| "replace_stars (c # d # cs) =
     (if c = CHR ''*'' \<and> d = CHR ''*'' then CHR ''*'' # replace_stars cs
      else c # replace_stars (d # cs))"

fun match_any_glob :: "env \<Rightarrow> string \<Rightarrow> string list \<Rightarrow> bool" where
  "match_any_glob e target [] = False"
| "match_any_glob e target (pattern # globs) =
     (if fnmatch e target (replace_stars pattern) then True else match_any_glob e target globs)"

section \<open>extractors/metadata\_parser.py\<close>

definition text_or_none :: "tag option \<Rightarrow> string option" where
  "text_or_none node =
     (case node of
        None \<Rightarrow> None
      | Some t \<Rightarrow> (let txt = tag_text t in if txt \<noteq> [] then Some txt else None))"

fun first_meta :: "soup \<Rightarrow> string list \<Rightarrow> string option" where
  "first_meta sp [] = None"
| "first_meta sp (n # names) =
     (case find_meta_name sp n of
        Some m \<Rightarrow>
          if truthy (tag_content m) then Some (py_strip (the (tag_content m)))
          else (case find_meta_property sp n of
                  Some m' \<Rightarrow>
                    if truthy (tag_content m') then Some (py_strip (the (tag_content m')))
                    else first_meta sp names
                | None \<Rightarrow> first_meta sp names)
      | None \<Rightarrow>
          (case find_meta_property sp n of
             Some m' \<Rightarrow>
               if truthy (tag_content m') then Some (py_strip (the (tag_content m')))
               else first_meta sp names
           | None \<Rightarrow> first_meta sp names))"

text \<open>\<open>re.sub(r"\s+", " ", text)\<close>: every maximal run of whitespace becomes one space;
  \<open>in_run\<close> says whether the previous character was whitespace.\<close>

fun sub_ws :: "bool \<Rightarrow> string \<Rightarrow> string" where
  "sub_ws in_run [] = []"
| "sub_ws in_run (c # cs) =
     (if isspace c then (if in_run then sub_ws True cs else CHR '' '' # sub_ws True cs)
      else c # sub_ws False cs)"

definition clean_whitespace :: "string option \<Rightarrow> string option" where
  "clean_whitespace text = (if \<not> truthy text then text else Some (py_strip (sub_ws False (the text))))"

fun join_space :: "string list \<Rightarrow> string" where
  "join_space [] = []"
| "join_space [x] = x"
| "join_space (x # y # ys) = x @ '' '' @ join_space (y # ys)"

record page_record =
  rec_url :: string
  rec_title :: "string option"
  rec_description :: "string option"
  rec_heading :: "string option"
  rec_article :: "string option"

text \<open>The first article stage: readability's summary, parsed again, and its visible text.
  Any exception of the stage leaves the article empty.\<close>

definition readability_article :: "env \<Rightarrow> string \<Rightarrow> string option" where
  "readability_article e html =
     (case summary e html of
        Inl err \<Rightarrow> None
      | Inr content_html \<Rightarrow>
          (case bs4 e content_html of
             Inl err \<Rightarrow> None
           | Inr content_soup \<Rightarrow> text_or_none (Some (soup_root content_soup))))"

text \<open>The fallback for the article when the first stage gave nothing: the \<open>article\<close>
  element, else the \<open>main\<close> element; only when neither exists, the first ten non-empty
  paragraphs.\<close>

definition fallback_article :: "soup \<Rightarrow> string option \<Rightarrow> string option" where
  "fallback_article sp article =
     (let main = (case find_first sp ''article'' of Some t \<Rightarrow> Some t
                  | None \<Rightarrow> find_first sp ''main'')
      in case main of
           Some t \<Rightarrow> text_or_none (Some t)
         | None \<Rightarrow>
             (let paras = filter (\<lambda>p. p \<noteq> []) (map tag_text (find_all_p sp))
              in if paras \<noteq> []
                 then (let joined = join_space (take 10 paras)
                       in if joined \<noteq> [] then Some joined else None)
                 else article))"

definition parse_metadata :: "env \<Rightarrow> string \<Rightarrow> string \<Rightarrow> error + page_record" where
  "parse_metadata e html page_url =
     (case bs4 e html of
        Inl err \<Rightarrow> Inl err
      | Inr sp \<Rightarrow>
          (let title0 = py_or (first_meta sp [''og:title'', ''twitter:title'', ''dc.title''])
                 (case soup_title sp of
                    Some t \<Rightarrow> if truthy (tag_string t) then Some (py_strip (the (tag_string t)))
                              else None
                  | None \<Rightarrow> None);
               title = (if \<not> truthy title0
                        then (case find_first sp ''h1'' of
                                Some first_h1 \<Rightarrow> text_or_none (Some first_h1)
                              | None \<Rightarrow> title0)
                        else title0);
               description =
                 first_meta sp [''description'', ''og:description'', ''twitter:description''];
               h = (case find_first sp ''h1'' of Some t \<Rightarrow> Some t | None \<Rightarrow> find_first sp ''h2'');
               heading = (case h of Some t \<Rightarrow> text_or_none (Some t) | None \<Rightarrow> None);
               article1 = readability_article e html;
               article = (if \<not> truthy article1 then fallback_article sp article1 else article1)
           in Inr \<lparr>rec_url = page_url,
                   rec_title = clean_whitespace title,
                   rec_description = clean_whitespace description,
                   rec_heading = clean_whitespace heading,
                   rec_article = clean_whitespace article\<rparr>))"

section \<open>runner.py\<close>

text \<open>The configuration, as far as the crawl reads it (\<open>output_file\<close> is read by \<open>main\<close>).\<close>

record crawl_config =
  start_urls :: "string list"
  scrape_url_globs :: "string list"
  pagination_url_globs :: "string list"
  ignore_url_globs :: "string list"
  max_requests_per_crawl :: int
  delay_seconds :: pyfloat

definition should_ignore :: "env \<Rightarrow> string \<Rightarrow> string list \<Rightarrow> bool" where
  "should_ignore e u ignore_globs = match_any_glob e u ignore_globs"

definition classify_url :: "env \<Rightarrow> string \<Rightarrow> string list \<Rightarrow> string list \<Rightarrow> string" where
  "classify_url e u scrape_globs pagination_globs =
     (if match_any_glob e u scrape_globs then ''detail''
      else if match_any_glob e u pagination_globs then ''pagination''
      else ''unknown'')"

text \<open>
  The variables of \<open>crawl\<close>. Three more fields record the calls the loop makes and decide
  nothing: \<open>fetch_log\<close> holds every call of \<open>fetch_html\<close> (the URL, and whether the call
  returned rather than raised), \<open>extract_log\<close> the URLs given to \<open>parse_metadata\<close>,
  \<open>links_log\<close> the URLs given to \<open>find_links\<close>. The number of calls of \<open>fetch_html\<close> so far
  is the index of the next request.
\<close>

record crawl_state =
  to_visit :: "(string \<times> string option) list"
  visited :: "string set"
  results :: "page_record list"
  num_requests :: int
  fetch_log :: "(string \<times> bool) list"
  extract_log :: "string list"
  links_log :: "string list"

text \<open>The seeding loop. \<open>normalize_url\<close> is called outside any \<open>try\<close>: its exception ends
  the crawl.\<close>

fun seed :: "env \<Rightarrow> string list \<Rightarrow> (string \<times> string option) list
    \<Rightarrow> error + (string \<times> string option) list" where
  "seed e [] q = Inr q"
| "seed e (u # us) q =
     (case normalize_url e (Some u) of
        Inl err \<Rightarrow> Inl err
      | Inr norm \<Rightarrow> if truthy norm then seed e us (q @ [(the norm, None)]) else seed e us q)"

text \<open>The loop over the links of a page, inside the \<open>try\<close> of link discovery: an exception
  ends the loop and keeps what was appended before it. \<open>vis\<close> is the visited set, which
  the loop only reads.\<close>

fun enqueue_links :: "env \<Rightarrow> crawl_config \<Rightarrow> string \<Rightarrow> string set \<Rightarrow> string list
    \<Rightarrow> (string \<times> string option) list \<Rightarrow> (string \<times> string option) list" where
  "enqueue_links e cfg page_url vis [] q = q"
| "enqueue_links e cfg page_url vis (link # links) q =
     (case normalize_url e (Some link) of
        Inl err \<Rightarrow> q
      | Inr norm \<Rightarrow>
          if \<not> truthy norm \<or> the norm \<in> vis then enqueue_links e cfg page_url vis links q
          else if should_ignore e (the norm) (ignore_url_globs cfg)
          then enqueue_links e cfg page_url vis links q
          else (let classification =
                      classify_url e (the norm) (scrape_url_globs cfg) (pagination_url_globs cfg)
                in if classification \<in> set [''detail'', ''pagination'']
                   then enqueue_links e cfg page_url vis links (q @ [(the norm, Some page_url)])
                   else (case urlparse e (the norm) of
                           Inl err \<Rightarrow> q
                         | Inr pn \<Rightarrow>
                             (case urlparse e page_url of
                                Inl err \<Rightarrow> q
                              | Inr pu \<Rightarrow>
                                  if netloc pn = netloc pu
                                  then enqueue_links e cfg page_url vis links
                                         (q @ [(the norm, Some page_url)])
                                  else enqueue_links e cfg page_url vis links q))))"

text \<open>Lines 117 to 124: extraction. The dictionary \<open>parse_metadata\<close> returns has five
  keys, so it is truthy and always appended; an exception is logged and dropped.\<close>

definition extract_page :: "env \<Rightarrow> crawl_config \<Rightarrow> string \<Rightarrow> string \<Rightarrow> string \<Rightarrow> crawl_state
    \<Rightarrow> crawl_state" where
  "extract_page e cfg page_type html page_url s =
     (if page_type = ''detail'' \<or> (scrape_url_globs cfg = [] \<and> page_type \<noteq> ''pagination'')
      then (let s1 = s\<lparr>extract_log := extract_log s @ [page_url]\<rparr>
            in case parse_metadata e html page_url of
                 Inl err \<Rightarrow> s1
               | Inr meta \<Rightarrow> s1\<lparr>results := results s1 @ [meta]\<rparr>)
      else s)"

text \<open>Lines 126 to 146: link discovery.\<close>

definition discover_links :: "env \<Rightarrow> crawl_config \<Rightarrow> string \<Rightarrow> string \<Rightarrow> string \<Rightarrow> crawl_state
    \<Rightarrow> crawl_state" where
  "discover_links e cfg page_type html page_url s =
     (if page_type \<in> set [''pagination'', ''unknown'']
      then (let s1 = s\<lparr>links_log := links_log s @ [page_url]\<rparr>
            in case find_links e html page_url of
                 Inl err \<Rightarrow> s1
               | Inr links \<Rightarrow>
                   s1\<lparr>to_visit := enqueue_links e cfg page_url (visited s1) links (to_visit s1)\<rparr>)
      else s)"

text \<open>Lines 111 to 146: a usable response. Re-normalising the final URL is outside any
  \<open>try\<close>.\<close>

definition process_page :: "env \<Rightarrow> crawl_config \<Rightarrow> string \<Rightarrow> string \<Rightarrow> string \<Rightarrow> crawl_state
    \<Rightarrow> error + crawl_state" where
  "process_page e cfg u html final_url s =
     (case normalize_url e (Some final_url) of
        Inl err \<Rightarrow> Inl err
      | Inr n \<Rightarrow>
          (let page_url = the (py_or n (Some u));
               page_type = classify_url e page_url (scrape_url_globs cfg) (pagination_url_globs cfg)
           in Inr (discover_links e cfg page_type html page_url
                     (extract_page e cfg page_type html page_url s))))"

text \<open>Lines 101 and 102: the pause after a fetch that returned. It stands inside the \<open>try\<close>
  of the fetch, so an exception of \<open>time.sleep\<close> skips the page like a failed fetch.\<close>

definition polite_delay :: "env \<Rightarrow> crawl_config \<Rightarrow> error + unit" where
  "polite_delay e cfg =
     (if float_pos (delay_seconds cfg) then sleep e (delay_seconds cfg) else Inr ())"

text \<open>One iteration of the \<open>while\<close> loop (lines 88 to 146).\<close>

definition crawl_iter :: "env \<Rightarrow> crawl_config \<Rightarrow> crawl_state \<Rightarrow> error + crawl_state" where
  "crawl_iter e cfg s =
     (case to_visit s of
        [] \<Rightarrow> Inl IndexError
      | (u, referrer) # rest \<Rightarrow>
          (let s1 = s\<lparr>to_visit := rest\<rparr>
           in if u = [] \<or> u \<in> visited s1 then Inr s1
              else (let s2 = s1\<lparr>visited := insert u (visited s1)\<rparr>
                    in if should_ignore e u (ignore_url_globs cfg) then Inr s2
                       else (case fetch_html e (length (fetch_log s2)) u of
                               Inl err \<Rightarrow> Inr (s2\<lparr>fetch_log := fetch_log s2 @ [(u, False)]\<rparr>)
                             | Inr (html, final_url, status) \<Rightarrow>
                                 (let s3 = s2\<lparr>num_requests := num_requests s2 + 1,
                                              fetch_log := fetch_log s2 @ [(u, True)]\<rparr>
                                  in case polite_delay e cfg of
                                       Inl err \<Rightarrow> Inr s3
                                     | Inr slept \<Rightarrow>
                                         if 400 \<le> status \<or> html = [] then Inr s3
                                         else process_page e cfg u html final_url s3)))))"

definition loop_cond :: "crawl_config \<Rightarrow> crawl_state \<Rightarrow> bool" where
  "loop_cond cfg s = (to_visit s \<noteq> [] \<and> num_requests s < max_requests_per_crawl cfg)"

text \<open>The \<open>while\<close> loop. It is defined as a partial function: not returning is the value
  \<open>None\<close>.\<close>

partial_function (option) crawl_loop :: "env \<Rightarrow> crawl_config \<Rightarrow> crawl_state
    \<Rightarrow> (error + crawl_state) option" where
  "crawl_loop e cfg s =
     (if loop_cond cfg s
      then (case crawl_iter e cfg s of
              Inl err \<Rightarrow> Some (Inl err)
            | Inr s' \<Rightarrow> crawl_loop e cfg s')
      else Some (Inr s))"

text \<open>The state after at most \<open>n\<close> iterations of the loop: every state the run passes
  through is one of these.\<close>

fun crawl_steps :: "nat \<Rightarrow> env \<Rightarrow> crawl_config \<Rightarrow> crawl_state \<Rightarrow> error + crawl_state" where
  "crawl_steps 0 e cfg s = Inr s"
| "crawl_steps (Suc n) e cfg s =
     (if loop_cond cfg s
      then (case crawl_iter e cfg s of
              Inl err \<Rightarrow> Inl err
            | Inr s' \<Rightarrow> crawl_steps n e cfg s')
      else Inr s)"

definition init_state :: "(string \<times> string option) list \<Rightarrow> crawl_state" where
  "init_state q = \<lparr>to_visit = q, visited = {}, results = [], num_requests = 0, fetch_log = [],
                    extract_log = [], links_log = []\<rparr>"

text \<open>\<open>crawl\<close> up to its final state, and \<open>crawl\<close> itself, which returns the results.\<close>

definition crawl_run :: "env \<Rightarrow> crawl_config \<Rightarrow> (error + crawl_state) option" where
  "crawl_run e cfg =
     (case seed e (start_urls cfg) [] of
        Inl err \<Rightarrow> Some (Inl err)
      | Inr q \<Rightarrow> crawl_loop e cfg (init_state q))"

definition crawl :: "env \<Rightarrow> crawl_config \<Rightarrow> (error + page_record list) option" where
  "crawl e cfg = map_option (map_sum id results) (crawl_run e cfg)"

section \<open>Whitespace normalisation, in the specification's words\<close>

text \<open>The words of a text: its maximal runs of characters that are not whitespace, in
  order (what \<open>str.split()\<close> returns). Collapsing every run of whitespace to one space and
  trimming the ends is joining the words with single spaces.\<close>

lemma ws_split_shorter:
  assumes "dropWhile isspace s \<noteq> []"
  shows "length (dropWhile (\<lambda>c. \<not> isspace c) (dropWhile isspace s)) < length s"
proof -
  obtain c cs where t: "dropWhile isspace s = c # cs"
    using assms by (cases "dropWhile isspace s") auto
  have "\<not> isspace c"
    using hd_dropWhile [OF assms] t by simp
  then have "length (dropWhile (\<lambda>c. \<not> isspace c) (c # cs)) \<le> length cs"
    by (simp add: length_dropWhile_le)
  moreover have "length (c # cs) \<le> length s"
    using length_dropWhile_le [of isspace s] t by simp
  ultimately show ?thesis using t by simp
qed

function ws_split :: "string \<Rightarrow> string list" where
  "ws_split s =
     (let t = dropWhile isspace s
      in if t = [] then []
         else takeWhile (\<lambda>c. \<not> isspace c) t # ws_split (dropWhile (\<lambda>c. \<not> isspace c) t))"
  by pat_completeness auto
termination
  by (relation "measure length") (simp_all add: ws_split_shorter)

text \<open>\<open>str.rstrip()\<close>: trimming on the right, the second half of \<open>str.strip()\<close>.\<close>

definition rstrip :: "string \<Rightarrow> string" where
  "rstrip s = rev (dropWhile isspace (rev s))"

section \<open>Invariants and the termination order of the loop\<close>

text \<open>What holds of the calls recorded so far: no URL was given to \<open>fetch_html\<close> twice,
  every such URL is in the visited set, none matches an ignore pattern, and
  \<open>num_requests\<close> is the number of calls that returned.\<close>

definition log_inv :: "env \<Rightarrow> crawl_config \<Rightarrow> crawl_state \<Rightarrow> bool" where
  "log_inv e cfg s =
     (distinct (map fst (fetch_log s)) \<and> fst ` set (fetch_log s) \<subseteq> visited s
      \<and> (\<forall>u \<in> fst ` set (fetch_log s). \<not> should_ignore e u (ignore_url_globs cfg))
      \<and> num_requests s = int (length (filter snd (fetch_log s))))"

text \<open>Every iteration either raises \<open>num_requests\<close>, which the budget bounds, or leaves it
  and shortens the frontier.\<close>

definition crawl_order :: "crawl_config \<Rightarrow> (crawl_state \<times> crawl_state) set" where
  "crawl_order cfg =
     inv_image (less_than <*lex*> less_than)
       (\<lambda>s. (nat (max_requests_per_crawl cfg - num_requests s), length (to_visit s)))"

section \<open>The re-enqueue policy, in the specification's words\<close>

text \<open>A link as the loop sees it after normalisation (\<open>None\<close> when normalisation gives
  nothing), the network location of a URL, and the policy: a normalized link is enqueued
  when it is not visited, matches no ignore pattern, and classifies "detail" or
  "pagination", or classifies "unknown" and has the network location of the page.\<close>

definition norm_link :: "env \<Rightarrow> string \<Rightarrow> string option" where
  "norm_link e l =
     (case normalize_url e (Some l) of Inl err \<Rightarrow> None | Inr n \<Rightarrow> if truthy n then n else None)"

definition netloc_of :: "env \<Rightarrow> string \<Rightarrow> string option" where
  "netloc_of e u = (case urlparse e u of Inl err \<Rightarrow> None | Inr p \<Rightarrow> Some (netloc p))"

definition enqueue_policy :: "env \<Rightarrow> crawl_config \<Rightarrow> string \<Rightarrow> string set \<Rightarrow> string \<Rightarrow> bool" where
  "enqueue_policy e cfg page_url vis m =
     (m \<notin> vis \<and> \<not> should_ignore e m (ignore_url_globs cfg) \<and>
      (let c = classify_url e m (scrape_url_globs cfg) (pagination_url_globs cfg)
       in c = ''detail'' \<or> c = ''pagination''
          \<or> (c = ''unknown'' \<and> netloc_of e m = netloc_of e page_url)))"

text \<open>The network host of a URL, which is not what the loop compares: two URLs of one host
  may differ in their network locations (a port, user information, the case of a letter).\<close>

definition host_of :: "env \<Rightarrow> string \<Rightarrow> string option" where
  "host_of e u = (case urlparse e u of Inl err \<Rightarrow> None | Inr p \<Rightarrow> hostname p)"

section \<open>The social-title lookups, in the specification's words\<close>



section \<open>Example documents, environments and states\<close>

definition blank_tag :: tag where
  "blank_tag = \<lparr>tag_string = None, tag_text = [], tag_content = None\<rparr>"


text \<open>A document with an \<open>og:title\<close> property and a \<open>main\<close> element that has text.\<close>

definition ex_article_doc :: soup where
  "ex_article_doc =
     \<lparr>find_meta_name = (\<lambda>n. None),
      find_meta_property =
        (\<lambda>n. if n = ''og:title'' then Some (blank_tag\<lparr>tag_content := Some ''Hello''\<rparr>) else None),
      soup_title = None,
      find_first = (\<lambda>n. if n = ''main'' then Some (blank_tag\<lparr>tag_text := ''Body text''\<rparr>)
                         else None),
      find_all_p = [],
      a_hrefs = [],
      soup_root = blank_tag\<lparr>tag_text := ''Body text''\<rparr>\<rparr>"


text \<open>A seed page with four links: a detail page, an ignored page, a page that answers 404
  and a page on another host.\<close>

definition ex_seed_doc :: soup where
  "ex_seed_doc =
     \<lparr>find_meta_name = (\<lambda>n. None),
      find_meta_property = (\<lambda>n. None),
      soup_title = None,
      find_first = (\<lambda>n. None),
      find_all_p = [],
      a_hrefs = [''http://e.com/a'', ''http://e.com/x'', ''http://e.com/gone'', ''http://o.org/b''],
      soup_root = blank_tag\<rparr>"

text \<open>A page with two links to its own host, the first of them with the port written out.\<close>

definition ex_list_doc :: soup where
  "ex_list_doc =
     \<lparr>find_meta_name = (\<lambda>n. None),
      find_meta_property = (\<lambda>n. None),
      soup_title = None,
      find_first = (\<lambda>n. None),
      find_all_p = [],
      a_hrefs = [''http://e.com:80/p'', ''http://e.com/q''],
      soup_root = blank_tag\<rparr>"

text \<open>A small site. Patterns without wildcards match the URL equal to them; every network
  location parses; the links of the pages are absolute; \<open>http://e.com/gone\<close> answers 404;
  \<open>time.sleep\<close> raises on an infinite pause only.\<close>

definition ex_env :: env where
  "ex_env =
     \<lparr>fnmatch = (\<lambda>t p. t = p), netloc_ok = (\<lambda>n. True), urljoin = (\<lambda>b h. Inr h),
      http_get =
        (\<lambda>k u. if u = ''http://e.com/''
                then Inr \<lparr>resp_text = ''seed'', resp_url = ''http://e.com/'', status_code = 200\<rparr>
                else if u = ''http://e.com/a''
                then Inr \<lparr>resp_text = ''art'', resp_url = ''http://e.com/a'', status_code = 200\<rparr>
                else if u = ''http://e.com/gone''
                then Inr \<lparr>resp_text = ''gone'', resp_url = ''http://e.com/gone'', status_code = 404\<rparr>
                else if u = ''http://e.com/list''
                then Inr \<lparr>resp_text = ''list'', resp_url = ''http://e.com/list'', status_code = 200\<rparr>
                else Inl TransportError),
      bs4 = (\<lambda>h. if h = ''seed'' then Inr ex_seed_doc
                  else if h = ''art'' then Inr ex_article_doc
                  else if h = ''list'' then Inr ex_list_doc
                  else Inl ParserError),
      summary = (\<lambda>h. Inl ParserError),
      sleep = (\<lambda>d. if d = PosInf then Inl OverflowError else Inr ())\<rparr>"

definition ex_cfg :: crawl_config where
  "ex_cfg =
     \<lparr>start_urls = [''http://e.com'', ''http://e.com/x'', ''http://e.com/''],
      scrape_url_globs = [''http://e.com/a''],
      pagination_url_globs = [],
      ignore_url_globs = [''http://e.com/x''],
      max_requests_per_crawl = 5,
      delay_seconds = Dyadic 1 (- 1)\<rparr>"

text \<open>The same site crawled without scrape and pagination patterns.\<close>

definition ex_open_cfg :: crawl_config where
  "ex_open_cfg =
     \<lparr>start_urls = [''http://e.com''],
      scrape_url_globs = [],
      pagination_url_globs = [],
      ignore_url_globs = [],
      max_requests_per_crawl = 5,
      delay_seconds = Dyadic 0 0\<rparr>"

text \<open>The run of \<open>crawl\<close> on \<open>ex_env\<close> and \<open>ex_cfg\<close>: the frontier after seeding and the
  state after each of the five iterations (the seed page; the ignored page; the seed page
  again, already visited; the detail page; the page that answers 404).\<close>

definition ex_q0 :: "(string \<times> string option) list" where
  "ex_q0 = [(''http://e.com/'', None), (''http://e.com/x'', None), (''http://e.com/'', None)]"

definition ex_rec :: page_record where
  "ex_rec = \<lparr>rec_url = ''http://e.com/a'', rec_title = Some ''Hello'', rec_description = None,
             rec_heading = None, rec_article = Some ''Body text''\<rparr>"

definition ex_s1 :: crawl_state where
  "ex_s1 =
     \<lparr>to_visit = [(''http://e.com/x'', None), (''http://e.com/'', None),
                  (''http://e.com/a'', Some ''http://e.com/''),
                  (''http://e.com/gone'', Some ''http://e.com/'')],
      visited = {''http://e.com/''}, results = [], num_requests = 1,
      fetch_log = [(''http://e.com/'', True)], extract_log = [],
      links_log = [''http://e.com/'']\<rparr>"

definition ex_s2 :: crawl_state where
  "ex_s2 =
     \<lparr>to_visit = [(''http://e.com/'', None), (''http://e.com/a'', Some ''http://e.com/''),
                  (''http://e.com/gone'', Some ''http://e.com/'')],
      visited = {''http://e.com/x'', ''http://e.com/''}, results = [], num_requests = 1,
      fetch_log = [(''http://e.com/'', True)], extract_log = [],
      links_log = [''http://e.com/'']\<rparr>"

definition ex_s3 :: crawl_state where
  "ex_s3 =
     \<lparr>to_visit = [(''http://e.com/a'', Some ''http://e.com/''),
                  (''http://e.com/gone'', Some ''http://e.com/'')],
      visited = {''http://e.com/x'', ''http://e.com/''}, results = [], num_requests = 1,
      fetch_log = [(''http://e.com/'', True)], extract_log = [],
      links_log = [''http://e.com/'']\<rparr>"

definition ex_s4 :: crawl_state where
  "ex_s4 =
     \<lparr>to_visit = [(''http://e.com/gone'', Some ''http://e.com/'')],
      visited = {''http://e.com/a'', ''http://e.com/x'', ''http://e.com/''},
      results = [ex_rec], num_requests = 2,
      fetch_log = [(''http://e.com/'', True), (''http://e.com/a'', True)],
      extract_log = [''http://e.com/a''], links_log = [''http://e.com/'']\<rparr>"

definition ex_s5 :: crawl_state where
  "ex_s5 =
     \<lparr>to_visit = [],
      visited = {''http://e.com/gone'', ''http://e.com/a'', ''http://e.com/x'', ''http://e.com/''},
      results = [ex_rec], num_requests = 2,
      fetch_log = [(''http://e.com/'', True), (''http://e.com/a'', True),
                   (''http://e.com/gone'', False)],
      extract_log = [''http://e.com/a''], links_log = [''http://e.com/'']\<rparr>"

text \<open>The same crawl started at the page \<open>http://e.com/list\<close>, and its state after the
  first iteration.\<close>

definition ex_list_cfg :: crawl_config where
  "ex_list_cfg = ex_cfg\<lparr>start_urls := [''http://e.com/list'']\<rparr>"

definition ex_list_s1 :: crawl_state where
  "ex_list_s1 =
     \<lparr>to_visit = [(''http://e.com/q'', Some ''http://e.com/list'')],
      visited = {''http://e.com/list''}, results = [], num_requests = 1,
      fetch_log = [(''http://e.com/list'', True)], extract_log = [],
      links_log = [''http://e.com/list'']\<rparr>"

text \<open>The same site when every request is answered 404, crawled from three start URLs with a
  budget of one request: the frontier after seeding and the state after each of the three
  iterations.\<close>

definition ex_down_env :: env where
  "ex_down_env =
     ex_env\<lparr>http_get :=
       (\<lambda>k u. Inr \<lparr>resp_text = ''not found'', resp_url = u, status_code = 404\<rparr>)\<rparr>"

definition ex_tight_cfg :: crawl_config where
  "ex_tight_cfg =
     \<lparr>start_urls = [''http://e.com/1'', ''http://e.com/2'', ''http://e.com/3''],
      scrape_url_globs = [],
      pagination_url_globs = [],
      ignore_url_globs = [],
      max_requests_per_crawl = 1,
      delay_seconds = Dyadic 0 0\<rparr>"

definition ex_down_q :: "(string \<times> string option) list" where
  "ex_down_q = [(''http://e.com/1'', None), (''http://e.com/2'', None), (''http://e.com/3'', None)]"

definition ex_down_s1 :: crawl_state where
  "ex_down_s1 =
     \<lparr>to_visit = [(''http://e.com/2'', None), (''http://e.com/3'', None)],
      visited = {''http://e.com/1''}, results = [], num_requests = 0,
      fetch_log = [(''http://e.com/1'', False)], extract_log = [], links_log = []\<rparr>"

definition ex_down_s2 :: crawl_state where
  "ex_down_s2 =
     \<lparr>to_visit = [(''http://e.com/3'', None)],
      visited = {''http://e.com/2'', ''http://e.com/1''}, results = [], num_requests = 0,
      fetch_log = [(''http://e.com/1'', False), (''http://e.com/2'', False)],
      extract_log = [], links_log = []\<rparr>"

definition ex_down_s3 :: crawl_state where
  "ex_down_s3 =
     \<lparr>to_visit = [],
      visited = {''http://e.com/3'', ''http://e.com/2'', ''http://e.com/1''}, results = [],
      num_requests = 0,
      fetch_log = [(''http://e.com/1'', False), (''http://e.com/2'', False),
                   (''http://e.com/3'', False)],
      extract_log = [], links_log = []\<rparr>"

section \<open>Basic facts\<close>

lemma truthy_Some [simp]: "truthy (Some s) = (s \<noteq> [])"
  by (simp add: truthy_def)

lemma truthy_None [simp]: "\<not> truthy None"
  by (simp add: truthy_def)

declare ws_split.simps [simp del]

subsection \<open>Whitespace\<close>

lemma isspace_space: "isspace CHR '' ''"
  by (simp add: isspace_def)

lemma py_strip_rstrip: "py_strip s = rstrip (dropWhile isspace s)"
  by (simp add: py_strip_def rstrip_def)

lemma sub_ws_True: "sub_ws True t = sub_ws False (dropWhile isspace t)"
  by (induction t) simp_all

lemma dropWhile_sub_ws: "dropWhile isspace (sub_ws b t) = sub_ws False (dropWhile isspace t)"
  by (induction t arbitrary: b) (simp_all add: isspace_space)

lemma sub_ws_word: "\<forall>c \<in> set w. \<not> isspace c \<Longrightarrow> sub_ws False (w @ t) = w @ sub_ws False t"
  by (induction w) simp_all

lemma rstrip_Nil [simp]: "rstrip [] = []"
  by (simp add: rstrip_def)

lemma rstrip_snoc: "rstrip (x @ [c]) = (if isspace c then rstrip x else x @ [c])"
  by (simp add: rstrip_def)

lemma rstrip_append: "rstrip (w @ x) = (if rstrip x = [] then rstrip w else w @ rstrip x)"
proof (induction x rule: rev_induct)
  case Nil
  then show ?case by simp
next
  case (snoc c x)
  show ?case
    using snoc rstrip_snoc [of "w @ x" c] rstrip_snoc [of x c]
    by (simp del: append_assoc add: append_assoc [symmetric])
qed

lemma rstrip_word: "\<forall>c \<in> set w. \<not> isspace c \<Longrightarrow> rstrip w = w"
proof (induction w rule: rev_induct)
  case Nil
  then show ?case by simp
next
  case (snoc c w)
  then show ?case by (simp add: rstrip_snoc)
qed

lemma rstrip_Cons_space: "isspace c \<Longrightarrow> rstrip (c # x) = (if rstrip x = [] then [] else c # rstrip x)"
  using rstrip_append [of "[c]" x] rstrip_snoc [of "[]" c] by simp


lemma ws_split_Nil_iff: "ws_split s = [] \<longleftrightarrow> dropWhile isspace s = []"
  by (subst ws_split.simps) (simp add: Let_def)

lemma ws_split_nonempty_words: "w \<in> set (ws_split s) \<Longrightarrow> w \<noteq> []"
proof (induction s rule: ws_split.induct)
  case (1 s)
  show ?case
  proof (cases "dropWhile isspace s = []")
    case True
    with "1.prems" show ?thesis by (simp add: ws_split_Nil_iff [THEN iffD2])
  next
    case False
    then have hd: "\<not> isspace (hd (dropWhile isspace s))"
      by (rule hd_dropWhile)
    from False "1.prems"
    have "w = takeWhile (\<lambda>c. \<not> isspace c) (dropWhile isspace s)
        \<or> w \<in> set (ws_split (dropWhile (\<lambda>c. \<not> isspace c) (dropWhile isspace s)))"
      by (subst (asm) ws_split.simps) (simp add: Let_def del: dropWhile_eq_Nil_conv)
    then show ?thesis
    proof
      assume "w = takeWhile (\<lambda>c. \<not> isspace c) (dropWhile isspace s)"
      with False hd show ?thesis
        by (cases "dropWhile isspace s") simp_all
    next
      assume "w \<in> set (ws_split (dropWhile (\<lambda>c. \<not> isspace c) (dropWhile isspace s)))"
      with "1.IH" [OF refl False] show ?thesis by simp
    qed
  qed
qed

lemma join_space_Cons: "join_space (x # xs) = (if xs = [] then x else x @ CHR '' '' # join_space xs)"
  by (cases xs) simp_all

lemma join_space_Nil_iff: "\<forall>w \<in> set ws. w \<noteq> [] \<Longrightarrow> join_space ws = [] \<longleftrightarrow> ws = []"
  by (cases ws) (simp_all add: join_space_Cons)

lemma sub_ws_space_Cons:
  "isspace c \<Longrightarrow> sub_ws False (c # cs) = CHR '' '' # sub_ws False (dropWhile isspace (c # cs))"
  by (simp add: sub_ws_True)

lemma rstrip_sub_ws: "rstrip (sub_ws False (dropWhile isspace s)) = join_space (ws_split s)"
proof (induction s rule: ws_split.induct)
  case (1 s)
  define t where "t = dropWhile isspace s"
  show ?case
  proof (cases "t = []")
    case True
    then show ?thesis
      using ws_split_Nil_iff [of s] by (simp add: t_def del: dropWhile_eq_Nil_conv)
  next
    case False
    define w where "w = takeWhile (\<lambda>c. \<not> isspace c) t"
    define rest where "rest = dropWhile (\<lambda>c. \<not> isspace c) t"
    have t: "t = w @ rest" by (simp add: w_def rest_def)
    have w: "\<forall>c \<in> set w. \<not> isspace c"
      unfolding w_def by (auto dest: set_takeWhileD)
    have split: "ws_split s = w # ws_split rest"
      using False by (subst ws_split.simps) (simp add: Let_def t_def w_def rest_def)
    have IH: "rstrip (sub_ws False (dropWhile isspace rest)) = join_space (ws_split rest)"
      using "1.IH" [OF refl] False by (simp add: t_def rest_def)
    have words: "\<forall>x \<in> set (ws_split rest). x \<noteq> []"
      using ws_split_nonempty_words by blast
    have sub: "sub_ws False t = w @ sub_ws False rest"
      using w by (simp add: t sub_ws_word)
    show ?thesis
    proof (cases rest)
      case Nil
      have "ws_split [] = []" by (simp add: ws_split_Nil_iff)
      with Nil show ?thesis
        using w by (simp add: t_def [symmetric] sub split rstrip_word)
    next
      case (Cons c cs)
      have "rest \<noteq> []" using Cons by simp
      then have "\<not> \<not> isspace (hd rest)"
        unfolding rest_def by (rule hd_dropWhile)
      then have c: "isspace c" using Cons by simp
      have "sub_ws False rest = CHR '' '' # sub_ws False (dropWhile isspace rest)"
        unfolding Cons using c by (rule sub_ws_space_Cons)
      then have "rstrip (sub_ws False t)
          = (if join_space (ws_split rest) = [] then w else w @ CHR '' '' # join_space (ws_split rest))"
        using w by (simp add: sub rstrip_append rstrip_Cons_space isspace_space IH rstrip_word)
      then show ?thesis
        using join_space_Nil_iff [OF words]
        by (simp add: t_def [symmetric] split join_space_Cons)
    qed
  qed
qed

lemma strip_sub_ws: "py_strip (sub_ws False s) = join_space (ws_split s)"
  by (simp add: py_strip_rstrip dropWhile_sub_ws rstrip_sub_ws)



subsection \<open>Metadata lookups\<close>


subsection \<open>The loop body\<close>

lemma extract_page_fields [simp]:
  "num_requests (extract_page e cfg pt html pu s) = num_requests s"
  "fetch_log (extract_page e cfg pt html pu s) = fetch_log s"
  "visited (extract_page e cfg pt html pu s) = visited s"
  "to_visit (extract_page e cfg pt html pu s) = to_visit s"
  "links_log (extract_page e cfg pt html pu s) = links_log s"
  by (simp_all add: extract_page_def Let_def split: sum.splits)

lemma discover_links_fields [simp]:
  "num_requests (discover_links e cfg pt html pu s) = num_requests s"
  "fetch_log (discover_links e cfg pt html pu s) = fetch_log s"
  "visited (discover_links e cfg pt html pu s) = visited s"
  "results (discover_links e cfg pt html pu s) = results s"
  "extract_log (discover_links e cfg pt html pu s) = extract_log s"
  by (simp_all add: discover_links_def Let_def split: sum.splits)

lemma process_page_fields:
  assumes "process_page e cfg u html fu s = Inr s'"
  shows "num_requests s' = num_requests s" "fetch_log s' = fetch_log s" "visited s' = visited s"
  using assms by (auto simp: process_page_def Let_def split: sum.splits)

lemma enqueue_links_appends: "\<exists>new. enqueue_links e cfg pu vis links q = q @ new"
proof (induction links arbitrary: q)
  case Nil
  show ?case by simp
next
  case (Cons l links)
  have step: "\<exists>new. enqueue_links e cfg pu vis links (q @ [x]) = q @ new" for x
    using Cons [of "q @ [x]"] by auto
  show ?case
    using Cons [of q] step
    by (simp add: Let_def split: sum.splits)
qed

lemma process_page_to_visit:
  assumes "process_page e cfg u html fu s = Inr s'"
  shows "\<exists>new. to_visit s' = to_visit s @ new"
proof -
  have "\<exists>new. to_visit (discover_links e cfg pt html pu t) = to_visit t @ new" for pt pu t
    using enqueue_links_appends [of e cfg pu "visited t" _ "to_visit t"]
    by (simp add: discover_links_def Let_def split: sum.splits)
  from this [of _ _ "extract_page e cfg _ html _ s"] assms show ?thesis
    by (auto simp: process_page_def Let_def split: sum.splits)
qed

lemma crawl_iter_cases:
  assumes "crawl_iter e cfg s = Inr s'"
  obtains (skip) u r rest where "to_visit s = (u, r) # rest" "u = [] \<or> u \<in> visited s"
      "s' = s\<lparr>to_visit := rest\<rparr>"
  | (ignored) u r rest where "to_visit s = (u, r) # rest" "u \<noteq> []" "u \<notin> visited s"
      "should_ignore e u (ignore_url_globs cfg)"
      "s' = s\<lparr>to_visit := rest, visited := insert u (visited s)\<rparr>"
  | (raised) u r rest err where "to_visit s = (u, r) # rest" "u \<noteq> []" "u \<notin> visited s"
      "\<not> should_ignore e u (ignore_url_globs cfg)"
      "fetch_html e (length (fetch_log s)) u = Inl err"
      "s' = s\<lparr>to_visit := rest, visited := insert u (visited s),
              fetch_log := fetch_log s @ [(u, False)]\<rparr>"
  | (unusable) u r rest html fu status where "to_visit s = (u, r) # rest" "u \<noteq> []"
      "u \<notin> visited s" "\<not> should_ignore e u (ignore_url_globs cfg)"
      "fetch_html e (length (fetch_log s)) u = Inr (html, fu, status)"
      "(\<exists>err. polite_delay e cfg = Inl err) \<or> 400 \<le> status \<or> html = []"
      "s' = s\<lparr>to_visit := rest, visited := insert u (visited s),
              num_requests := num_requests s + 1,
              fetch_log := fetch_log s @ [(u, True)]\<rparr>"
  | (usable) u r rest html fu status where "to_visit s = (u, r) # rest" "u \<noteq> []"
      "u \<notin> visited s" "\<not> should_ignore e u (ignore_url_globs cfg)"
      "fetch_html e (length (fetch_log s)) u = Inr (html, fu, status)"
      "polite_delay e cfg = Inr ()" "status < 400" "html \<noteq> []"
      "process_page e cfg u html fu (s\<lparr>to_visit := rest, visited := insert u (visited s),
              num_requests := num_requests s + 1,
              fetch_log := fetch_log s @ [(u, True)]\<rparr>) = Inr s'"
  using assms
  by (auto simp: crawl_iter_def Let_def split: list.splits prod.splits if_splits sum.splits)

text \<open>What one iteration does to the variables the invariants read.\<close>

lemma crawl_iter_effect:
  assumes "crawl_iter e cfg s = Inr s'"
  obtains (quiet) u r rest where "to_visit s = (u, r) # rest" "to_visit s' = rest"
      "fetch_log s' = fetch_log s" "num_requests s' = num_requests s"
      "visited s' = visited s \<or> visited s' = insert u (visited s)"
      "results s' = results s"
  | (raised) u r rest where "to_visit s = (u, r) # rest" "to_visit s' = rest"
      "u \<notin> visited s" "\<not> should_ignore e u (ignore_url_globs cfg)"
      "fetch_log s' = fetch_log s @ [(u, False)]" "num_requests s' = num_requests s"
      "visited s' = insert u (visited s)" "results s' = results s"
  | (returned) u r rest new where "to_visit s = (u, r) # rest" "to_visit s' = rest @ new"
      "u \<notin> visited s" "\<not> should_ignore e u (ignore_url_globs cfg)"
      "fetch_log s' = fetch_log s @ [(u, True)]" "num_requests s' = num_requests s + 1"
      "visited s' = insert u (visited s)"
  using assms
proof (cases rule: crawl_iter_cases)
  case (skip u r rest)
  then show ?thesis by (intro quiet [of u r rest]) simp_all
next
  case (ignored u r rest)
  then show ?thesis by (intro quiet [of u r rest]) simp_all
next
  case (raised u r rest err)
  then show ?thesis by (intro that(2) [of u r rest]) simp_all
next
  case (unusable u r rest html fu status)
  then show ?thesis by (intro returned [of u r rest "[]"]) simp_all
next
  case (usable u r rest html fu status)
  from process_page_to_visit [OF usable(9)] obtain new where "to_visit s' = rest @ new"
    by auto
  with usable process_page_fields [OF usable(9)] show ?thesis
    by (intro returned [of u r rest new]) simp_all
qed

subsection \<open>Runs\<close>

lemma crawl_steps_invariant:
  assumes step: "\<And>s s'. P s \<Longrightarrow> loop_cond cfg s \<Longrightarrow> crawl_iter e cfg s = Inr s' \<Longrightarrow> P s'"
    and "P s" and "crawl_steps n e cfg s = Inr s'"
  shows "P s'"
  using assms(2,3)
proof (induction n arbitrary: s)
  case 0
  then show ?case by simp
next
  case (Suc n)
  show ?case
  proof (cases "loop_cond cfg s")
    case False
    with Suc.prems show ?thesis by simp
  next
    case True
    with Suc.prems obtain t where t: "crawl_iter e cfg s = Inr t" "crawl_steps n e cfg t = Inr s'"
      by (auto split: sum.splits)
    from step [OF Suc.prems(1) True t(1)] t(2) show ?thesis
      by (rule Suc.IH)
  qed
qed

lemma log_inv_init: "log_inv e cfg (init_state q)"
  by (simp add: log_inv_def init_state_def)

lemma log_inv_step:
  assumes "log_inv e cfg s" and "crawl_iter e cfg s = Inr s'"
  shows "log_inv e cfg s'"
  using assms(2)
proof (cases rule: crawl_iter_effect)
  case (quiet u r rest)
  with assms(1) show ?thesis by (auto simp: log_inv_def)
next
  case (raised u r rest)
  with assms(1) show ?thesis by (auto simp: log_inv_def)
next
  case (returned u r rest new)
  with assms(1) show ?thesis by (auto simp: log_inv_def)
qed

lemma log_inv_steps:
  assumes "crawl_steps n e cfg (init_state q) = Inr s"
  shows "log_inv e cfg s"
  using log_inv_step log_inv_init assms
  by (rule crawl_steps_invariant [where P = "log_inv e cfg"])

lemma budget_step:
  assumes "num_requests s \<le> max_requests_per_crawl cfg" "loop_cond cfg s"
    "crawl_iter e cfg s = Inr s'"
  shows "num_requests s' \<le> max_requests_per_crawl cfg"
  using assms(3)
  by (cases rule: crawl_iter_effect) (use assms(1,2) in \<open>simp_all add: loop_cond_def\<close>)

lemma budget_steps:
  assumes "0 \<le> max_requests_per_crawl cfg" "crawl_steps n e cfg (init_state q) = Inr s"
  shows "num_requests s \<le> max_requests_per_crawl cfg"
proof (rule crawl_steps_invariant [where P = "\<lambda>s. num_requests s \<le> max_requests_per_crawl cfg"])
  show "num_requests (init_state q) \<le> max_requests_per_crawl cfg"
    using assms(1) by (simp add: init_state_def)
  show "crawl_steps n e cfg (init_state q) = Inr s" by fact
qed (rule budget_step)

subsection \<open>Termination\<close>

lemma crawl_iter_decreases:
  assumes "loop_cond cfg s" "crawl_iter e cfg s = Inr s'"
  shows "((nat (max_requests_per_crawl cfg - num_requests s'), length (to_visit s')),
          (nat (max_requests_per_crawl cfg - num_requests s), length (to_visit s)))
         \<in> less_than <*lex*> less_than"
  using assms(2)
  by (cases rule: crawl_iter_effect) (use assms(1) in \<open>simp_all add: loop_cond_def\<close>)

lemma wf_crawl_order: "wf (crawl_order cfg)"
  unfolding crawl_order_def by (intro wf_inv_image wf_lex_prod wf_less_than)

lemma crawl_iter_in_order:
  assumes "loop_cond cfg s" "crawl_iter e cfg s = Inr s'"
  shows "(s', s) \<in> crawl_order cfg"
  using crawl_iter_decreases [OF assms] by (simp add: crawl_order_def)

lemma crawl_loop_returns: "\<exists>r. crawl_loop e cfg s = Some r"
  using wf_crawl_order [of cfg]
proof (induct s rule: wf_induct_rule)
  case (less s)
  show ?case
  proof (cases "loop_cond cfg s")
    case False
    then show ?thesis by (subst crawl_loop.simps) simp
  next
    case True
    show ?thesis
    proof (cases "crawl_iter e cfg s")
      case (Inl err)
      with True show ?thesis by (subst crawl_loop.simps) simp
    next
      case (Inr s')
      from less [OF crawl_iter_in_order [OF True Inr]] True Inr show ?thesis
        by (subst crawl_loop.simps) simp
    qed
  qed
qed

lemma crawl_loop_steps:
  "crawl_loop e cfg s = Some (Inr s') \<Longrightarrow> \<exists>n. crawl_steps n e cfg s = Inr s' \<and> \<not> loop_cond cfg s'"
  using wf_crawl_order [of cfg]
proof (induct s rule: wf_induct_rule)
  case (less s)
  show ?case
  proof (cases "loop_cond cfg s")
    case False
    with less.prems have "s' = s" by (subst (asm) crawl_loop.simps) simp
    with False have "crawl_steps 0 e cfg s = Inr s' \<and> \<not> loop_cond cfg s'" by simp
    then show ?thesis ..
  next
    case True
    with less.prems obtain t where t: "crawl_iter e cfg s = Inr t"
        "crawl_loop e cfg t = Some (Inr s')"
      by (subst (asm) crawl_loop.simps) (auto split: sum.splits)
    from less.hyps [OF crawl_iter_in_order [OF True t(1)] t(2)]
    obtain n where "crawl_steps n e cfg t = Inr s'" "\<not> loop_cond cfg s'" by auto
    with True t(1) have "crawl_steps (Suc n) e cfg s = Inr s' \<and> \<not> loop_cond cfg s'" by simp
    then show ?thesis ..
  qed
qed

subsection \<open>Classification, link discovery and single iterations\<close>

lemma classify_url_cases:
  "classify_url e u sg pg = ''detail'' \<or> classify_url e u sg pg = ''pagination''
   \<or> classify_url e u sg pg = ''unknown''"
  by (simp add: classify_url_def)

lemma classify_url_no_globs: "classify_url e u [] [] = ''unknown''"
  by (simp add: classify_url_def)

lemma enqueue_links_policy:
  assumes "\<And>l. l \<in> set links \<Longrightarrow> \<exists>n. normalize_url e (Some l) = Inr n"
    and "\<And>l m. l \<in> set links \<Longrightarrow> norm_link e l = Some m \<Longrightarrow> \<exists>p. urlparse e m = Inr p"
    and "urlparse e page_url = Inr pp"
  shows "enqueue_links e cfg page_url vis links q
     = q @ map (\<lambda>m. (m, Some page_url))
           (filter (enqueue_policy e cfg page_url vis) (List.map_filter (norm_link e) links))"
  using assms(1,2)
proof (induction links arbitrary: q)
  case Nil
  show ?case by (simp add: map_filter_simps)
next
  case (Cons l links)
  from Cons.prems(1) [of l] obtain n where n: "normalize_url e (Some l) = Inr n" by auto
  have IH: "enqueue_links e cfg page_url vis links q'
     = q' @ map (\<lambda>m. (m, Some page_url))
           (filter (enqueue_policy e cfg page_url vis) (List.map_filter (norm_link e) links))" for q'
    using Cons.prems by (intro Cons.IH) auto
  show ?case
  proof (cases "truthy n")
    case False
    with n have "norm_link e l = None" by (simp add: norm_link_def)
    with n False IH show ?thesis by (simp add: map_filter_simps)
  next
    case True
    then obtain m where m: "n = Some m" "m \<noteq> []" by (cases n) auto
    with n have nl: "norm_link e l = Some m" by (simp add: norm_link_def)
    from Cons.prems(2) [of l m] nl obtain pm where pm: "urlparse e m = Inr pm" by auto
    have nets: "netloc_of e m = Some (netloc pm)" "netloc_of e page_url = Some (netloc pp)"
      using pm assms(3) by (simp_all add: netloc_of_def)
    define c where "c = classify_url e m (scrape_url_globs cfg) (pagination_url_globs cfg)"
    have c: "c = ''detail'' \<or> c = ''pagination'' \<or> c = ''unknown''"
      unfolding c_def by (rule classify_url_cases)
    have pol: "enqueue_policy e cfg page_url vis m \<longleftrightarrow>
        m \<notin> vis \<and> \<not> should_ignore e m (ignore_url_globs cfg)
        \<and> (c = ''detail'' \<or> c = ''pagination'' \<or> netloc pm = netloc pp)"
      using c nets by (auto simp: enqueue_policy_def Let_def c_def [symmetric])
    have step: "enqueue_links e cfg page_url vis (l # links) q =
        (if m \<in> vis \<or> should_ignore e m (ignore_url_globs cfg)
         then enqueue_links e cfg page_url vis links q
         else if c = ''detail'' \<or> c = ''pagination'' \<or> netloc pm = netloc pp
         then enqueue_links e cfg page_url vis links (q @ [(m, Some page_url)])
         else enqueue_links e cfg page_url vis links q)"
      using n m pm assms(3) by (simp add: Let_def c_def [symmetric])
    show ?thesis
      unfolding step by (simp add: IH map_filter_simps nl pol)
  qed
qed

lemma crawl_iter_usable:
  assumes "to_visit s = (u, r) # rest" "u \<noteq> []" "u \<notin> visited s"
    "\<not> should_ignore e u (ignore_url_globs cfg)"
    "fetch_html e (length (fetch_log s)) u = Inr (html, final_url, status)"
    "status < 400" "html \<noteq> []" "polite_delay e cfg = Inr ()"
  shows "crawl_iter e cfg s
     = process_page e cfg u html final_url
         (s\<lparr>to_visit := rest, visited := insert u (visited s),
            num_requests := num_requests s + 1, fetch_log := fetch_log s @ [(u, True)]\<rparr>)"
  using assms by (simp add: crawl_iter_def Let_def)

lemma extract_page_extract_log:
  "extract_log (extract_page e cfg pt html pu t) =
     (if pt = ''detail'' \<or> (scrape_url_globs cfg = [] \<and> pt \<noteq> ''pagination'')
      then extract_log t @ [pu] else extract_log t)"
  by (simp add: extract_page_def Let_def split: sum.splits)

lemma extract_page_results:
  "results (extract_page e cfg pt html pu t) =
     (if pt = ''detail'' \<or> (scrape_url_globs cfg = [] \<and> pt \<noteq> ''pagination'')
      then (case parse_metadata e html pu of
              Inl err \<Rightarrow> results t | Inr meta \<Rightarrow> results t @ [meta])
      else results t)"
  by (simp add: extract_page_def Let_def split: sum.splits)

lemma discover_links_links_log:
  "links_log (discover_links e cfg pt html pu t) =
     (if pt = ''pagination'' \<or> pt = ''unknown'' then links_log t @ [pu] else links_log t)"
  by (simp add: discover_links_def Let_def split: sum.splits)

lemma discover_links_to_visit:
  "to_visit (discover_links e cfg pt html pu t) =
     (if pt = ''pagination'' \<or> pt = ''unknown''
      then (case find_links e html pu of
              Inl err \<Rightarrow> to_visit t
            | Inr links \<Rightarrow> enqueue_links e cfg pu (visited t) links (to_visit t))
      else to_visit t)"
  by (simp add: discover_links_def Let_def split: sum.splits)

lemma crawl_iter_page:
  assumes "to_visit s = (u, r) # rest" "u \<noteq> []" "u \<notin> visited s"
    "\<not> should_ignore e u (ignore_url_globs cfg)"
    "fetch_html e (length (fetch_log s)) u = Inr (html, final_url, status)"
    "status < 400" "html \<noteq> []" "polite_delay e cfg = Inr ()"
    "normalize_url e (Some final_url) = Inr n"
  shows "crawl_iter e cfg s
     = Inr (discover_links e cfg
              (classify_url e (the (py_or n (Some u))) (scrape_url_globs cfg)
                 (pagination_url_globs cfg))
              html (the (py_or n (Some u)))
              (extract_page e cfg
                 (classify_url e (the (py_or n (Some u))) (scrape_url_globs cfg)
                    (pagination_url_globs cfg))
                 html (the (py_or n (Some u)))
                 (s\<lparr>to_visit := rest, visited := insert u (visited s),
                    num_requests := num_requests s + 1,
                    fetch_log := fetch_log s @ [(u, True)]\<rparr>)))"
  using crawl_iter_usable [OF assms(1-8)] assms(9)
  by (simp add: process_page_def Let_def)

lemma enqueue_policy_no_globs:
  assumes "scrape_url_globs cfg = []" "pagination_url_globs cfg = []"
  shows "enqueue_policy e cfg page_url vis m
     = (m \<notin> vis \<and> \<not> should_ignore e m (ignore_url_globs cfg)
        \<and> netloc_of e m = netloc_of e page_url)"
  using assms by (simp add: enqueue_policy_def classify_url_no_globs)

lemma discover_links_policy:
  assumes "find_links e html page_url = Inr links"
    and "\<forall>l \<in> set links. \<exists>n. normalize_url e (Some l) = Inr n"
    and "\<forall>l \<in> set links. \<forall>m. norm_link e l = Some m \<longrightarrow> (\<exists>p. urlparse e m = Inr p)"
    and "urlparse e page_url = Inr pp"
  shows "to_visit (discover_links e cfg pt html page_url t) =
     (if pt = ''pagination'' \<or> pt = ''unknown''
      then to_visit t @ map (\<lambda>m. (m, Some page_url))
             (filter (enqueue_policy e cfg page_url (visited t))
                (List.map_filter (norm_link e) links))
      else to_visit t)"
proof -
  have enq: "enqueue_links e cfg page_url (visited t) links (to_visit t)
     = to_visit t @ map (\<lambda>m. (m, Some page_url))
           (filter (enqueue_policy e cfg page_url (visited t))
              (List.map_filter (norm_link e) links))"
    using assms(2,3,4) by (intro enqueue_links_policy [where pp = pp]) blast+
  show ?thesis
    by (simp only: discover_links_to_visit assms(1) sum.case enq)
qed

lemma crawl_iter_seen:
  assumes "to_visit s = (u, r) # rest" "u \<in> visited s"
  shows "crawl_iter e cfg s = Inr (s\<lparr>to_visit := rest\<rparr>)"
  using assms by (simp add: crawl_iter_def Let_def)

lemma crawl_iter_ignored:
  assumes "to_visit s = (u, r) # rest" "should_ignore e u (ignore_url_globs cfg)"
  shows "\<exists>s'. crawl_iter e cfg s = Inr s' \<and> to_visit s' = rest
      \<and> fetch_log s' = fetch_log s \<and> num_requests s' = num_requests s \<and> results s' = results s"
  using assms by (simp add: crawl_iter_def Let_def)

lemma crawl_iter_raised:
  assumes "to_visit s = (u, r) # rest" "u \<noteq> []" "u \<notin> visited s"
    "\<not> should_ignore e u (ignore_url_globs cfg)"
    "fetch_html e (length (fetch_log s)) u = Inl err"
  shows "crawl_iter e cfg s
     = Inr (s\<lparr>to_visit := rest, visited := insert u (visited s),
              fetch_log := fetch_log s @ [(u, False)]\<rparr>)"
  using assms by (simp add: crawl_iter_def Let_def)

lemma crawl_iter_fetch_log:
  assumes "to_visit s = (u, r) # rest" "crawl_iter e cfg s = Inr s'" "fetch_log s' \<noteq> fetch_log s"
  shows "u \<notin> visited s \<and> u \<in> visited s' \<and> (\<exists>b. fetch_log s' = fetch_log s @ [(u, b)])"
  using assms(2)
proof (cases rule: crawl_iter_effect)
  case (quiet u' r' rest')
  with assms(3) show ?thesis by simp
next
  case (raised u' r' rest')
  with assms(1) have "u' = u" by simp
  with raised show ?thesis by auto
next
  case (returned u' r' rest' new)
  with assms(1) have "u' = u" by simp
  with returned show ?thesis by auto
qed

lemma crawl_iter_progress:
  assumes "crawl_iter e cfg s = Inr s'"
  shows "(num_requests s' = num_requests s + 1 \<and> (\<exists>new. to_visit s' = tl (to_visit s) @ new))
       \<or> (num_requests s' = num_requests s \<and> to_visit s' = tl (to_visit s)
           \<and> (\<forall>u b. fetch_log s' = fetch_log s @ [(u, b)] \<longrightarrow> \<not> b))"
  using assms
proof (cases rule: crawl_iter_effect)
  case (quiet u r rest)
  then show ?thesis by simp
next
  case (raised u r rest)
  then show ?thesis by simp
next
  case (returned u r rest new)
  then have "num_requests s' = num_requests s + 1 \<and> to_visit s' = tl (to_visit s) @ new"
    by simp
  then show ?thesis by blast
qed

lemma crawl_run_returns: "\<exists>r. crawl_run e cfg = Some r"
proof (cases "seed e (start_urls cfg) []")
  case (Inl err)
  then show ?thesis by (simp add: crawl_run_def)
next
  case (Inr q)
  with crawl_loop_returns [of e cfg "init_state q"] show ?thesis
    by (simp add: crawl_run_def)
qed

lemma crawl_returns: "\<exists>r. crawl e cfg = Some r"
proof -
  obtain r where "crawl_run e cfg = Some r"
    using crawl_run_returns by blast
  then show ?thesis
    by (simp add: crawl_def)
qed

lemma crawl_run_steps:
  assumes "crawl_run e cfg = Some (Inr s)"
  shows "\<exists>q n. seed e (start_urls cfg) [] = Inr q
           \<and> crawl_steps n e cfg (init_state q) = Inr s \<and> \<not> loop_cond cfg s"
proof (cases "seed e (start_urls cfg) []")
  case (Inl err)
  with assms show ?thesis by (simp add: crawl_run_def)
next
  case (Inr q)
  with assms have "crawl_loop e cfg (init_state q) = Some (Inr s)"
    by (simp add: crawl_run_def)
  from crawl_loop_steps [OF this] Inr show ?thesis by blast
qed

subsection \<open>The example run\<close>

lemma ex_env_sel:
  "fnmatch ex_env = (\<lambda>t p. t = p)" "netloc_ok ex_env = (\<lambda>n. True)"
  "urljoin ex_env = (\<lambda>b h. Inr h)" "summary ex_env = (\<lambda>h. Inl ParserError)"
  "bs4 ex_env ''seed'' = Inr ex_seed_doc" "bs4 ex_env ''art'' = Inr ex_article_doc"
  "http_get ex_env k ''http://e.com/''
     = Inr \<lparr>resp_text = ''seed'', resp_url = ''http://e.com/'', status_code = 200\<rparr>"
  "http_get ex_env k ''http://e.com/a''
     = Inr \<lparr>resp_text = ''art'', resp_url = ''http://e.com/a'', status_code = 200\<rparr>"
  "http_get ex_env k ''http://e.com/gone''
     = Inr \<lparr>resp_text = ''gone'', resp_url = ''http://e.com/gone'', status_code = 404\<rparr>"
  "bs4 ex_env ''list'' = Inr ex_list_doc"
  "http_get ex_env k ''http://e.com/list''
     = Inr \<lparr>resp_text = ''list'', resp_url = ''http://e.com/list'', status_code = 200\<rparr>"
  "sleep ex_env = (\<lambda>d. if d = PosInf then Inl OverflowError else Inr ())"
  by (simp_all add: ex_env_def)

lemma ex_cfg_sel:
  "start_urls ex_cfg = [''http://e.com'', ''http://e.com/x'', ''http://e.com/'']"
  "scrape_url_globs ex_cfg = [''http://e.com/a'']" "pagination_url_globs ex_cfg = []"
  "ignore_url_globs ex_cfg = [''http://e.com/x'']" "max_requests_per_crawl ex_cfg = 5"
  "start_urls ex_open_cfg = [''http://e.com'']"
  "scrape_url_globs ex_open_cfg = []" "pagination_url_globs ex_open_cfg = []"
  "ignore_url_globs ex_open_cfg = []" "max_requests_per_crawl ex_open_cfg = 5"
  "delay_seconds ex_cfg = Dyadic 1 (- 1)" "delay_seconds ex_open_cfg = Dyadic 0 0"
  by (simp_all add: ex_cfg_def ex_open_cfg_def)

lemma ex_delay:
  "polite_delay ex_env ex_cfg = Inr ()" "polite_delay ex_env ex_open_cfg = Inr ()"
  "polite_delay ex_env (ex_cfg\<lparr>delay_seconds := PosInf\<rparr>) = Inl OverflowError"
  by (simp_all add: polite_delay_def ex_cfg_sel ex_env_sel)

lemma ex_normalize:
  "normalize_url ex_env (Some ''http://e.com'') = Inr (Some ''http://e.com/'')"
  "normalize_url ex_env (Some ''http://e.com/'') = Inr (Some ''http://e.com/'')"
  "normalize_url ex_env (Some ''http://e.com/x'') = Inr (Some ''http://e.com/x'')"
  "normalize_url ex_env (Some ''http://e.com/a'') = Inr (Some ''http://e.com/a'')"
  "normalize_url ex_env (Some ''http://e.com/gone'') = Inr (Some ''http://e.com/gone'')"
  "normalize_url ex_env (Some ''http://o.org/b'') = Inr (Some ''http://o.org/b'')"
  "normalize_url ex_env (Some ''http://e.com/list'') = Inr (Some ''http://e.com/list'')"
  "normalize_url ex_env (Some ''http://e.com:80/p'') = Inr (Some ''http://e.com:80/p'')"
  "normalize_url ex_env (Some ''http://e.com/q'') = Inr (Some ''http://e.com/q'')"
  by code_simp+

lemma ex_urlparse:
  "urlparse ex_env ''http://e.com/''
     = Inr \<lparr>scheme = ''http'', netloc = ''e.com'', path = ''/'', params = [], query = [],
            fragment = []\<rparr>"
  "urlparse ex_env ''http://e.com/a''
     = Inr \<lparr>scheme = ''http'', netloc = ''e.com'', path = ''/a'', params = [], query = [],
            fragment = []\<rparr>"
  "urlparse ex_env ''http://e.com/x''
     = Inr \<lparr>scheme = ''http'', netloc = ''e.com'', path = ''/x'', params = [], query = [],
            fragment = []\<rparr>"
  "urlparse ex_env ''http://e.com/gone''
     = Inr \<lparr>scheme = ''http'', netloc = ''e.com'', path = ''/gone'', params = [], query = [],
            fragment = []\<rparr>"
  "urlparse ex_env ''http://o.org/b''
     = Inr \<lparr>scheme = ''http'', netloc = ''o.org'', path = ''/b'', params = [], query = [],
            fragment = []\<rparr>"
  "urlparse ex_env ''http://e.com/list''
     = Inr \<lparr>scheme = ''http'', netloc = ''e.com'', path = ''/list'', params = [], query = [],
            fragment = []\<rparr>"
  "urlparse ex_env ''http://e.com:80/p''
     = Inr \<lparr>scheme = ''http'', netloc = ''e.com:80'', path = ''/p'', params = [], query = [],
            fragment = []\<rparr>"
  "urlparse ex_env ''http://e.com/q''
     = Inr \<lparr>scheme = ''http'', netloc = ''e.com'', path = ''/q'', params = [], query = [],
            fragment = []\<rparr>"
  by code_simp+

lemma ex_hosts:
  "host_of ex_env ''http://e.com/list'' = Some ''e.com''"
  "host_of ex_env ''http://e.com:80/p'' = Some ''e.com''"
  "host_of ex_env ''http://e.com/q'' = Some ''e.com''"
  by code_simp+

lemma ex_fetch:
  "fetch_html ex_env k ''http://e.com/'' = Inr (''seed'', ''http://e.com/'', 200)"
  "fetch_html ex_env k ''http://e.com/a'' = Inr (''art'', ''http://e.com/a'', 200)"
  "fetch_html ex_env k ''http://e.com/gone'' = Inl (HTTPError 404)"
  "fetch_html ex_env k ''http://e.com/list'' = Inr (''list'', ''http://e.com/list'', 200)"
  by (simp_all add: fetch_html_def ex_env_sel)

lemma ex_globs:
  "should_ignore ex_env u (ignore_url_globs ex_cfg) = (u = ''http://e.com/x'')"
  "classify_url ex_env u (scrape_url_globs ex_cfg) (pagination_url_globs ex_cfg)
     = (if u = ''http://e.com/a'' then ''detail'' else ''unknown'')"
  "should_ignore ex_env u (ignore_url_globs ex_open_cfg) = False"
  "classify_url ex_env u (scrape_url_globs ex_open_cfg) (pagination_url_globs ex_open_cfg)
     = ''unknown''"
  by (simp_all add: should_ignore_def classify_url_def ex_cfg_sel ex_env_sel)

lemma ex_find_links:
  "find_links ex_env ''seed'' ''http://e.com/''
     = Inr [''http://e.com/a'', ''http://e.com/x'', ''http://e.com/gone'', ''http://o.org/b'']"
  by (simp add: find_links_def ex_env_sel ex_seed_doc_def startswith_def ex_normalize)

lemma ex_list_links:
  "find_links ex_env ''list'' ''http://e.com/list'' = Inr [''http://e.com:80/p'', ''http://e.com/q'']"
  by (simp add: find_links_def ex_env_sel ex_list_doc_def startswith_def ex_normalize)

lemma ex_list_cfg_sel:
  "start_urls ex_list_cfg = [''http://e.com/list'']"
  "scrape_url_globs ex_list_cfg = scrape_url_globs ex_cfg"
  "pagination_url_globs ex_list_cfg = pagination_url_globs ex_cfg"
  "ignore_url_globs ex_list_cfg = ignore_url_globs ex_cfg"
  "polite_delay ex_env ex_list_cfg = Inr ()"
  by (simp_all add: ex_list_cfg_def polite_delay_def ex_cfg_sel ex_env_sel)

lemma ex_list_seed:
  "seed ex_env (start_urls ex_list_cfg) [] = Inr [(''http://e.com/list'', None)]"
  by (simp add: ex_list_cfg_sel ex_normalize)

lemma ex_list_enqueue:
  "enqueue_links ex_env ex_list_cfg ''http://e.com/list'' {''http://e.com/list''}
      [''http://e.com:80/p'', ''http://e.com/q''] q
     = q @ [(''http://e.com/q'', Some ''http://e.com/list'')]"
  by (simp add: ex_normalize ex_list_cfg_sel ex_globs ex_urlparse Let_def)

lemma ex_enqueue:
  "enqueue_links ex_env ex_cfg ''http://e.com/'' {''http://e.com/''}
      [''http://e.com/a'', ''http://e.com/x'', ''http://e.com/gone'', ''http://o.org/b''] q
     = q @ [(''http://e.com/a'', Some ''http://e.com/''),
            (''http://e.com/gone'', Some ''http://e.com/'')]"
  by (simp add: ex_normalize ex_globs ex_urlparse Let_def)

lemma ex_parse_metadata:
  "parse_metadata ex_env ''art'' ''http://e.com/a'' = Inr ex_rec"
  "parse_metadata ex_env ''seed'' ''http://e.com/''
     = Inr \<lparr>rec_url = ''http://e.com/'', rec_title = None, rec_description = None,
            rec_heading = None, rec_article = None\<rparr>"
  by (simp_all add: parse_metadata_def ex_env_sel ex_article_doc_def ex_seed_doc_def
      blank_tag_def readability_article_def fallback_article_def text_or_none_def py_or_def
      clean_whitespace_def py_strip_def isspace_def ex_rec_def)

lemma ex_seed: "seed ex_env (start_urls ex_cfg) [] = Inr ex_q0"
  by (simp add: ex_cfg_sel ex_normalize ex_q0_def)

lemma ex_iter1: "crawl_iter ex_env ex_cfg (init_state ex_q0) = Inr ex_s1"
proof -
  define s3 where "s3 = (init_state ex_q0)\<lparr>to_visit := [(''http://e.com/x'', None),
      (''http://e.com/'', None)], visited := insert ''http://e.com/'' (visited (init_state ex_q0)),
      num_requests := num_requests (init_state ex_q0) + 1,
      fetch_log := fetch_log (init_state ex_q0) @ [(''http://e.com/'', True)]\<rparr>"
  have "crawl_iter ex_env ex_cfg (init_state ex_q0)
      = Inr (discover_links ex_env ex_cfg ''unknown'' ''seed'' ''http://e.com/''
               (extract_page ex_env ex_cfg ''unknown'' ''seed'' ''http://e.com/'' s3))"
    using crawl_iter_page [of "init_state ex_q0" "''http://e.com/''" None
        "[(''http://e.com/x'', None), (''http://e.com/'', None)]" ex_env ex_cfg "''seed''"
        "''http://e.com/''" 200 "Some ''http://e.com/''"]
    by (simp add: init_state_def ex_q0_def ex_globs ex_fetch ex_normalize ex_delay py_or_def
        s3_def)
  moreover have "extract_page ex_env ex_cfg ''unknown'' ''seed'' ''http://e.com/'' s3 = s3"
    by (simp add: extract_page_def ex_cfg_sel)
  moreover have "discover_links ex_env ex_cfg ''unknown'' ''seed'' ''http://e.com/'' s3 = ex_s1"
    by (simp add: discover_links_def Let_def ex_find_links s3_def init_state_def ex_q0_def
        ex_enqueue ex_s1_def del: enqueue_links.simps)
  ultimately show ?thesis by simp
qed

lemma ex_iter2: "crawl_iter ex_env ex_cfg ex_s1 = Inr ex_s2"
  by (simp add: crawl_iter_def Let_def ex_s1_def ex_s2_def ex_globs)

lemma ex_iter3: "crawl_iter ex_env ex_cfg ex_s2 = Inr ex_s3"
  by (simp add: crawl_iter_def Let_def ex_s2_def ex_s3_def)

lemma ex_iter4: "crawl_iter ex_env ex_cfg ex_s3 = Inr ex_s4"
proof -
  define s3 where "s3 = ex_s3\<lparr>to_visit := [(''http://e.com/gone'', Some ''http://e.com/'')],
      visited := insert ''http://e.com/a'' (visited ex_s3),
      num_requests := num_requests ex_s3 + 1,
      fetch_log := fetch_log ex_s3 @ [(''http://e.com/a'', True)]\<rparr>"
  have "crawl_iter ex_env ex_cfg ex_s3
      = Inr (discover_links ex_env ex_cfg ''detail'' ''art'' ''http://e.com/a''
               (extract_page ex_env ex_cfg ''detail'' ''art'' ''http://e.com/a'' s3))"
    using crawl_iter_page [of ex_s3 "''http://e.com/a''" "Some ''http://e.com/''"
        "[(''http://e.com/gone'', Some ''http://e.com/'')]" ex_env ex_cfg "''art''"
        "''http://e.com/a''" 200 "Some ''http://e.com/a''"]
    by (simp add: ex_s3_def ex_globs ex_fetch ex_normalize ex_delay py_or_def s3_def)
  moreover have "extract_page ex_env ex_cfg ''detail'' ''art'' ''http://e.com/a'' s3 = ex_s4"
    by (simp add: extract_page_def Let_def ex_parse_metadata s3_def ex_s3_def ex_s4_def)
  moreover have "discover_links ex_env ex_cfg ''detail'' ''art'' ''http://e.com/a'' ex_s4 = ex_s4"
    by (simp add: discover_links_def)
  ultimately show ?thesis by simp
qed

lemma ex_iter5: "crawl_iter ex_env ex_cfg ex_s4 = Inr ex_s5"
  by (simp add: crawl_iter_def Let_def ex_s4_def ex_s5_def ex_globs ex_fetch)

lemma ex_list_iter:
  "crawl_iter ex_env ex_list_cfg (init_state [(''http://e.com/list'', None)]) = Inr ex_list_s1"
proof -
  define s0 where "s0 = init_state [(''http://e.com/list'', None)]"
  define s3 where "s3 = s0\<lparr>to_visit := [], visited := insert ''http://e.com/list'' (visited s0),
      num_requests := num_requests s0 + 1,
      fetch_log := fetch_log s0 @ [(''http://e.com/list'', True)]\<rparr>"
  have "crawl_iter ex_env ex_list_cfg s0
      = Inr (discover_links ex_env ex_list_cfg ''unknown'' ''list'' ''http://e.com/list''
               (extract_page ex_env ex_list_cfg ''unknown'' ''list'' ''http://e.com/list'' s3))"
    using crawl_iter_page [of s0 "''http://e.com/list''" None "[]" ex_env ex_list_cfg "''list''"
        "''http://e.com/list''" 200 "Some ''http://e.com/list''"]
    by (simp add: s0_def init_state_def ex_list_cfg_sel ex_globs ex_fetch ex_normalize py_or_def
        s3_def)
  moreover have "extract_page ex_env ex_list_cfg ''unknown'' ''list'' ''http://e.com/list'' s3 = s3"
    by (simp add: extract_page_def ex_list_cfg_sel ex_cfg_sel)
  moreover have "discover_links ex_env ex_list_cfg ''unknown'' ''list'' ''http://e.com/list'' s3
      = ex_list_s1"
    by (simp add: discover_links_def Let_def ex_list_links s3_def s0_def init_state_def
        ex_list_enqueue ex_list_s1_def del: enqueue_links.simps)
  ultimately show ?thesis by (simp add: s0_def)
qed

text \<open>The run on the site that answers 404 to every request.\<close>

lemma ex_down_sel:
  "fnmatch ex_down_env = (\<lambda>t p. t = p)" "netloc_ok ex_down_env = (\<lambda>n. True)"
  "http_get ex_down_env k u = Inr \<lparr>resp_text = ''not found'', resp_url = u, status_code = 404\<rparr>"
  by (simp_all add: ex_down_env_def ex_env_sel)

lemma ex_down_fetch: "fetch_html ex_down_env k u = Inl (HTTPError 404)"
  by (simp add: fetch_html_def ex_down_sel)

lemma ex_down_normalize:
  "normalize_url ex_down_env (Some ''http://e.com/1'') = Inr (Some ''http://e.com/1'')"
  "normalize_url ex_down_env (Some ''http://e.com/2'') = Inr (Some ''http://e.com/2'')"
  "normalize_url ex_down_env (Some ''http://e.com/3'') = Inr (Some ''http://e.com/3'')"
  by code_simp+

lemma ex_down_seed: "seed ex_down_env (start_urls ex_tight_cfg) [] = Inr ex_down_q"
  by (simp add: ex_tight_cfg_def ex_down_normalize ex_down_q_def)

lemma ex_down_iters:
  "crawl_iter ex_down_env ex_tight_cfg (init_state ex_down_q) = Inr ex_down_s1"
  "crawl_iter ex_down_env ex_tight_cfg ex_down_s1 = Inr ex_down_s2"
  "crawl_iter ex_down_env ex_tight_cfg ex_down_s2 = Inr ex_down_s3"
  by (simp_all add: crawl_iter_def Let_def init_state_def ex_down_q_def ex_down_s1_def
      ex_down_s2_def ex_down_s3_def should_ignore_def ex_tight_cfg_def ex_down_fetch)

lemma ex_down_loop_cond:
  "loop_cond ex_tight_cfg (init_state ex_down_q)" "loop_cond ex_tight_cfg ex_down_s1"
  "loop_cond ex_tight_cfg ex_down_s2" "\<not> loop_cond ex_tight_cfg ex_down_s3"
  by (simp_all add: loop_cond_def init_state_def ex_down_q_def ex_down_s1_def ex_down_s2_def
      ex_down_s3_def ex_tight_cfg_def)

lemma ex_loop_cond:
  "loop_cond ex_cfg (init_state ex_q0)" "loop_cond ex_cfg ex_s1" "loop_cond ex_cfg ex_s2"
  "loop_cond ex_cfg ex_s3" "loop_cond ex_cfg ex_s4" "\<not> loop_cond ex_cfg ex_s5"
  "loop_cond ex_open_cfg (init_state [(''http://e.com/'', None)])"
  by (simp_all add: loop_cond_def init_state_def ex_q0_def ex_s1_def ex_s2_def ex_s3_def
      ex_s4_def ex_s5_def ex_cfg_sel)

lemma crawl_steps_Suc:
  assumes "loop_cond cfg s" "crawl_iter e cfg s = Inr t" "crawl_steps n e cfg t = Inr s'"
  shows "crawl_steps (Suc n) e cfg s = Inr s'"
  using assms by simp

lemma crawl_steps_snoc:
  assumes "crawl_steps n e cfg s = Inr t" "loop_cond cfg t" "crawl_iter e cfg t = Inr s'"
  shows "crawl_steps (Suc n) e cfg s = Inr s'"
  using assms
proof (induction n arbitrary: s)
  case 0
  then show ?case by simp
next
  case (Suc n)
  show ?case
  proof (cases "loop_cond cfg s")
    case False
    with Suc.prems show ?thesis by simp
  next
    case True
    with Suc.prems(1) obtain m where m: "crawl_iter e cfg s = Inr m" "crawl_steps n e cfg m = Inr t"
      by (auto split: sum.splits)
    from Suc.IH [OF m(2) Suc.prems(2,3)] True m(1) show ?thesis
      by (rule_tac crawl_steps_Suc)
  qed
qed

lemma ex_steps:
  "crawl_steps (Suc 0) ex_env ex_cfg (init_state ex_q0) = Inr ex_s1"
  "crawl_steps (Suc (Suc 0)) ex_env ex_cfg (init_state ex_q0) = Inr ex_s2"
  "crawl_steps (Suc (Suc (Suc 0))) ex_env ex_cfg (init_state ex_q0) = Inr ex_s3"
  "crawl_steps (Suc (Suc (Suc (Suc 0)))) ex_env ex_cfg (init_state ex_q0) = Inr ex_s4"
  "crawl_steps (Suc (Suc (Suc (Suc (Suc 0))))) ex_env ex_cfg (init_state ex_q0) = Inr ex_s5"
proof -
  have 0: "crawl_steps 0 ex_env ex_cfg (init_state ex_q0) = Inr (init_state ex_q0)"
    by simp
  show 1: "crawl_steps (Suc 0) ex_env ex_cfg (init_state ex_q0) = Inr ex_s1"
    by (rule crawl_steps_snoc [OF 0 ex_loop_cond(1) ex_iter1])
  show 2: "crawl_steps (Suc (Suc 0)) ex_env ex_cfg (init_state ex_q0) = Inr ex_s2"
    by (rule crawl_steps_snoc [OF 1 ex_loop_cond(2) ex_iter2])
  show 3: "crawl_steps (Suc (Suc (Suc 0))) ex_env ex_cfg (init_state ex_q0) = Inr ex_s3"
    by (rule crawl_steps_snoc [OF 2 ex_loop_cond(3) ex_iter3])
  show 4: "crawl_steps (Suc (Suc (Suc (Suc 0)))) ex_env ex_cfg (init_state ex_q0) = Inr ex_s4"
    by (rule crawl_steps_snoc [OF 3 ex_loop_cond(4) ex_iter4])
  show "crawl_steps (Suc (Suc (Suc (Suc (Suc 0))))) ex_env ex_cfg (init_state ex_q0) = Inr ex_s5"
    by (rule crawl_steps_snoc [OF 4 ex_loop_cond(5) ex_iter5])
qed

lemma ex_loop: "crawl_loop ex_env ex_cfg (init_state ex_q0) = Some (Inr ex_s5)"
proof -
  have "crawl_loop ex_env ex_cfg ex_s5 = Some (Inr ex_s5)"
    by (subst crawl_loop.simps) (simp add: ex_loop_cond)
  then have "crawl_loop ex_env ex_cfg ex_s4 = Some (Inr ex_s5)"
    by (subst crawl_loop.simps) (simp add: ex_loop_cond ex_iter5)
  then have "crawl_loop ex_env ex_cfg ex_s3 = Some (Inr ex_s5)"
    by (subst crawl_loop.simps) (simp add: ex_loop_cond ex_iter4)
  then have "crawl_loop ex_env ex_cfg ex_s2 = Some (Inr ex_s5)"
    by (subst crawl_loop.simps) (simp add: ex_loop_cond ex_iter3)
  then have "crawl_loop ex_env ex_cfg ex_s1 = Some (Inr ex_s5)"
    by (subst crawl_loop.simps) (simp add: ex_loop_cond ex_iter2)
  then show ?thesis
    by (subst crawl_loop.simps) (simp add: ex_loop_cond ex_iter1)
qed

lemma ex_crawl: "crawl ex_env ex_cfg = Some (Inr [ex_rec])"
  by (simp add: crawl_def crawl_run_def ex_seed ex_loop ex_s5_def)

lemma ex_down_steps:
  "crawl_steps (Suc (Suc (Suc 0))) ex_down_env ex_tight_cfg (init_state ex_down_q)
     = Inr ex_down_s3"
proof -
  have 0: "crawl_steps 0 ex_down_env ex_tight_cfg (init_state ex_down_q)
      = Inr (init_state ex_down_q)"
    by simp
  have 1: "crawl_steps (Suc 0) ex_down_env ex_tight_cfg (init_state ex_down_q) = Inr ex_down_s1"
    by (rule crawl_steps_snoc [OF 0 ex_down_loop_cond(1) ex_down_iters(1)])
  have 2: "crawl_steps (Suc (Suc 0)) ex_down_env ex_tight_cfg (init_state ex_down_q)
      = Inr ex_down_s2"
    by (rule crawl_steps_snoc [OF 1 ex_down_loop_cond(2) ex_down_iters(2)])
  show ?thesis
    by (rule crawl_steps_snoc [OF 2 ex_down_loop_cond(3) ex_down_iters(3)])
qed

lemma ex_down_run: "crawl_run ex_down_env ex_tight_cfg = Some (Inr ex_down_s3)"
proof -
  have "crawl_loop ex_down_env ex_tight_cfg ex_down_s3 = Some (Inr ex_down_s3)"
    by (subst crawl_loop.simps) (simp add: ex_down_loop_cond)
  then have "crawl_loop ex_down_env ex_tight_cfg ex_down_s2 = Some (Inr ex_down_s3)"
    by (subst crawl_loop.simps) (simp add: ex_down_loop_cond ex_down_iters)
  then have "crawl_loop ex_down_env ex_tight_cfg ex_down_s1 = Some (Inr ex_down_s3)"
    by (subst crawl_loop.simps) (simp add: ex_down_loop_cond ex_down_iters)
  then have "crawl_loop ex_down_env ex_tight_cfg (init_state ex_down_q) = Some (Inr ex_down_s3)"
    by (subst crawl_loop.simps) (simp add: ex_down_loop_cond ex_down_iters)
  then show ?thesis
    by (simp add: crawl_run_def ex_down_seed)
qed

section \<open>The claims\<close>

subsection \<open>The request budget\<close>

text \<open>
  Claim C1: the request-budget counter is incremented exactly once per fetch attempt,
  whatever the outcome of the attempt; when the fetch of a dequeued page answers 404, no
  record is produced and the counter still increments by one.

  \<open>crawl\<close> increments \<open>num_requests\<close> on the line after the call of \<open>fetch_html\<close> and tests
  \<open>status >= 400\<close> after that, so it means to count such a response and then to skip the
  page. But \<open>fetch_html\<close> calls \<open>raise_for_status\<close>: a response with status 404 is an
  exception, which leaves the \<open>try\<close> before the increment. In the example run the fifth
  iteration dequeues \<open>http://e.com/gone\<close>, the answer is 404, the attempt is made and the
  counter stays at 2.
\<close>

theorem fetch_404_not_counted:
  "http_get ex_env (length (fetch_log ex_s4)) ''http://e.com/gone''
     = Inr \<lparr>resp_text = ''gone'', resp_url = ''http://e.com/gone'', status_code = 404\<rparr>
   \<and> crawl_steps (Suc (Suc (Suc (Suc 0)))) ex_env ex_cfg (init_state ex_q0) = Inr ex_s4
   \<and> to_visit ex_s4 = [(''http://e.com/gone'', Some ''http://e.com/'')]
   \<and> crawl_iter ex_env ex_cfg ex_s4 = Inr ex_s5
   \<and> fetch_log ex_s5 = fetch_log ex_s4 @ [(''http://e.com/gone'', False)]
   \<and> results ex_s5 = results ex_s4
   \<and> num_requests ex_s4 = 2 \<and> num_requests ex_s5 = 2"
proof -
  have "fetch_log ex_s5 = fetch_log ex_s4 @ [(''http://e.com/gone'', False)]"
      "to_visit ex_s4 = [(''http://e.com/gone'', Some ''http://e.com/'')]"
      "results ex_s5 = results ex_s4" "num_requests ex_s4 = 2" "num_requests ex_s5 = 2"
    by (simp_all add: ex_s4_def ex_s5_def)
  with ex_env_sel(9) [of "length (fetch_log ex_s4)"] ex_steps(4) ex_iter5 show ?thesis
    by (intro conjI)
qed

subsection \<open>The visited set\<close>

text \<open>
  Claim C2: for every configuration and every sequence of fetch outcomes, at most one fetch
  attempt is made per normalized URL within a run: in every state the run reaches, the URLs
  given to \<open>fetch_html\<close> so far are pairwise distinct and all in the visited set; a dequeued
  URL that is already visited is discarded and nothing but the frontier changes; and an
  iteration that attempts a fetch does so on a URL that was not visited before and is
  visited after, whatever the outcome of the fetch.
\<close>

theorem one_fetch_attempt_per_url:
  assumes run: "crawl_steps k e cfg (init_state q) = Inr s"
  shows "distinct (map fst (fetch_log s))
     \<and> fst ` set (fetch_log s) \<subseteq> visited s
     \<and> (\<forall>u r rest. to_visit s = (u, r) # rest \<and> u \<in> visited s
          \<longrightarrow> crawl_iter e cfg s = Inr (s\<lparr>to_visit := rest\<rparr>))
     \<and> (\<forall>u r rest s'. to_visit s = (u, r) # rest \<and> crawl_iter e cfg s = Inr s'
            \<and> fetch_log s' \<noteq> fetch_log s
          \<longrightarrow> u \<notin> visited s \<and> u \<in> visited s' \<and> (\<exists>b. fetch_log s' = fetch_log s @ [(u, b)]))"
proof -
  have A: "distinct (map fst (fetch_log s))" and B: "fst ` set (fetch_log s) \<subseteq> visited s"
    using log_inv_steps [OF run] by (simp_all add: log_inv_def)
  have C: "\<forall>u r rest. to_visit s = (u, r) # rest \<and> u \<in> visited s
          \<longrightarrow> crawl_iter e cfg s = Inr (s\<lparr>to_visit := rest\<rparr>)"
    using crawl_iter_seen by blast
  have D: "\<forall>u r rest s'. to_visit s = (u, r) # rest \<and> crawl_iter e cfg s = Inr s'
            \<and> fetch_log s' \<noteq> fetch_log s
          \<longrightarrow> u \<notin> visited s \<and> u \<in> visited s' \<and> (\<exists>b. fetch_log s' = fetch_log s @ [(u, b)])"
    using crawl_iter_fetch_log by blast
  show ?thesis
    by (rule conjI [OF A conjI [OF B conjI [OF C D]]])
qed

theorem one_fetch_attempt_per_url_witness:
  "distinct (map fst (fetch_log ex_s2))
   \<and> crawl_iter ex_env ex_cfg ex_s2
       = Inr (ex_s2\<lparr>to_visit := [(''http://e.com/a'', Some ''http://e.com/''),
                                   (''http://e.com/gone'', Some ''http://e.com/'')]\<rparr>)"
proof -
  have head: "to_visit ex_s2 = (''http://e.com/'', None)
        # [(''http://e.com/a'', Some ''http://e.com/''),
           (''http://e.com/gone'', Some ''http://e.com/'')]
      \<and> ''http://e.com/'' \<in> visited ex_s2"
    by (simp add: ex_s2_def)
  from one_fetch_attempt_per_url [OF ex_steps(2)] head show ?thesis
    by blast
qed

text \<open>
  Claim C3: throughout any crawl run the fetch-attempt counter never exceeds the
  configured maximum.

  \<open>num_requests\<close> is compared with the maximum before every dequeue and rises by at most
  one per iteration, so it stays within the maximum (\<open>budget_steps\<close>); but it counts only
  the attempts that returned, which is the defect of claim C1, and so the number of fetch
  attempts is not bounded by the maximum. On the site that answers 404 to every request,
  with three start URLs and a budget of one request, the run makes three attempts and ends
  with the counter at 0.
\<close>

theorem fetch_attempts_exceed_budget:
  "seed ex_down_env (start_urls ex_tight_cfg) [] = Inr ex_down_q
   \<and> crawl_steps (Suc (Suc (Suc 0))) ex_down_env ex_tight_cfg (init_state ex_down_q)
       = Inr ex_down_s3
   \<and> crawl_run ex_down_env ex_tight_cfg = Some (Inr ex_down_s3)
   \<and> fetch_log ex_down_s3
       = [(''http://e.com/1'', False), (''http://e.com/2'', False), (''http://e.com/3'', False)]
   \<and> max_requests_per_crawl ex_tight_cfg = 1
   \<and> max_requests_per_crawl ex_tight_cfg < int (length (fetch_log ex_down_s3))
   \<and> num_requests ex_down_s3 = 0"
proof -
  have "fetch_log ex_down_s3
       = [(''http://e.com/1'', False), (''http://e.com/2'', False), (''http://e.com/3'', False)]"
      "max_requests_per_crawl ex_tight_cfg = 1"
      "max_requests_per_crawl ex_tight_cfg < int (length (fetch_log ex_down_s3))"
      "num_requests ex_down_s3 = 0"
    by (simp_all add: ex_down_s3_def ex_tight_cfg_def)
  with ex_down_seed ex_down_steps ex_down_run show ?thesis
    by (intro conjI)
qed

subsection \<open>Ignore patterns\<close>

text \<open>
  Claim C4: a URL that matches an ignore pattern is never fetched: in every state the run
  reaches, no URL given to \<open>fetch_html\<close> so far matches one; and when such a URL is
  dequeued, the iteration ends without a fetch: the log of fetches, the counter and the
  results are unchanged.
\<close>

theorem ignored_url_never_fetched:
  assumes run: "crawl_steps k e cfg (init_state q) = Inr s"
  shows "(\<forall>u \<in> fst ` set (fetch_log s). \<not> should_ignore e u (ignore_url_globs cfg))
     \<and> (\<forall>u r rest. to_visit s = (u, r) # rest \<and> should_ignore e u (ignore_url_globs cfg)
          \<longrightarrow> (\<exists>s'. crawl_iter e cfg s = Inr s' \<and> to_visit s' = rest
                 \<and> fetch_log s' = fetch_log s \<and> num_requests s' = num_requests s
                 \<and> results s' = results s))"
proof -
  have A: "\<forall>u \<in> fst ` set (fetch_log s). \<not> should_ignore e u (ignore_url_globs cfg)"
    using log_inv_steps [OF run] by (simp add: log_inv_def)
  have B: "\<forall>u r rest. to_visit s = (u, r) # rest \<and> should_ignore e u (ignore_url_globs cfg)
          \<longrightarrow> (\<exists>s'. crawl_iter e cfg s = Inr s' \<and> to_visit s' = rest
                 \<and> fetch_log s' = fetch_log s \<and> num_requests s' = num_requests s
                 \<and> results s' = results s)"
    using crawl_iter_ignored by blast
  show ?thesis
    by (rule conjI [OF A B])
qed

theorem ignored_url_never_fetched_witness:
  "should_ignore ex_env ''http://e.com/x'' (ignore_url_globs ex_cfg)
   \<and> (\<exists>s'. crawl_iter ex_env ex_cfg ex_s1 = Inr s'
          \<and> to_visit s' = [(''http://e.com/'', None), (''http://e.com/a'', Some ''http://e.com/''),
                           (''http://e.com/gone'', Some ''http://e.com/'')]
          \<and> fetch_log s' = fetch_log ex_s1 \<and> num_requests s' = num_requests ex_s1
          \<and> results s' = results ex_s1)"
proof -
  have head: "to_visit ex_s1 = (''http://e.com/x'', None)
        # [(''http://e.com/'', None), (''http://e.com/a'', Some ''http://e.com/''),
           (''http://e.com/gone'', Some ''http://e.com/'')]
      \<and> should_ignore ex_env ''http://e.com/x'' (ignore_url_globs ex_cfg)"
    by (simp add: ex_s1_def ex_globs)
  from ignored_url_never_fetched [OF ex_steps(1)] head show ?thesis
    by blast
qed

subsection \<open>Extraction and link discovery\<close>

text \<open>
  Claim C5: for every successfully fetched page (the fetch and the pause after it return,
  the response is below 400 and has a body, and the final URL normalizes without an
  exception), \<open>parse_metadata\<close> is called if and only if the page classifies "detail", or
  the scrape patterns are empty and the page does not classify "pagination"; its record,
  if it returns one, is appended to the results. Link discovery runs on the pages that
  classify "pagination" or "unknown": \<open>find_links\<close> is called on the page and its links go
  through the enqueue loop onto the frontier. When both the scrape and the pagination
  patterns are empty, the page classifies "unknown", is extracted, and has its links
  discovered in the same iteration: the frontier gains, in order, the normalized links that
  are not visited, match no ignore pattern and have the network location of the page (when
  URL parsing raises on none of them).
\<close>

theorem extraction_policy:
  assumes head: "to_visit s = (u, r) # rest" "u \<noteq> []" "u \<notin> visited s"
      "\<not> should_ignore e u (ignore_url_globs cfg)"
    and fetch: "fetch_html e (length (fetch_log s)) u = Inr (html, final_url, status)"
      "status < 400" "html \<noteq> []"
    and delay: "polite_delay e cfg = Inr ()"
    and norm: "normalize_url e (Some final_url) = Inr n"
    and page_url: "page_url = the (py_or n (Some u))"
    and page_type: "page_type = classify_url e page_url (scrape_url_globs cfg) (pagination_url_globs cfg)"
  shows "\<exists>s'. crawl_iter e cfg s = Inr s'
     \<and> extract_log s' =
         (if page_type = ''detail'' \<or> (scrape_url_globs cfg = [] \<and> page_type \<noteq> ''pagination'')
          then extract_log s @ [page_url] else extract_log s)
     \<and> results s' =
         (if page_type = ''detail'' \<or> (scrape_url_globs cfg = [] \<and> page_type \<noteq> ''pagination'')
          then (case parse_metadata e html page_url of
                  Inl err \<Rightarrow> results s | Inr meta \<Rightarrow> results s @ [meta])
          else results s)
     \<and> links_log s' =
         (if page_type = ''pagination'' \<or> page_type = ''unknown''
          then links_log s @ [page_url] else links_log s)
     \<and> to_visit s' =
         (if page_type = ''pagination'' \<or> page_type = ''unknown''
          then (case find_links e html page_url of
                  Inl err \<Rightarrow> rest
                | Inr links \<Rightarrow> enqueue_links e cfg page_url (insert u (visited s)) links rest)
          else rest)
     \<and> (scrape_url_globs cfg = [] \<and> pagination_url_globs cfg = [] \<longrightarrow>
           page_type = ''unknown'' \<and> extract_log s' = extract_log s @ [page_url]
           \<and> links_log s' = links_log s @ [page_url]
           \<and> (\<forall>links pp. find_links e html page_url = Inr links
                  \<and> (\<forall>l \<in> set links. \<exists>n. normalize_url e (Some l) = Inr n)
                  \<and> (\<forall>l \<in> set links. \<forall>m. norm_link e l = Some m
                        \<longrightarrow> (\<exists>p. urlparse e m = Inr p))
                  \<and> urlparse e page_url = Inr pp
                \<longrightarrow> to_visit s' = rest @ map (\<lambda>m. (m, Some page_url))
                      (filter (\<lambda>m. m \<notin> insert u (visited s)
                                 \<and> \<not> should_ignore e m (ignore_url_globs cfg)
                                 \<and> netloc_of e m = netloc_of e page_url)
                         (List.map_filter (norm_link e) links))))"
proof -
  define s3 where "s3 = s\<lparr>to_visit := rest, visited := insert u (visited s),
      num_requests := num_requests s + 1, fetch_log := fetch_log s @ [(u, True)]\<rparr>"
  define s' where "s' = discover_links e cfg page_type html page_url
      (extract_page e cfg page_type html page_url s3)"
  have s3: "extract_log s3 = extract_log s" "results s3 = results s" "links_log s3 = links_log s"
      "to_visit s3 = rest" "visited s3 = insert u (visited s)"
    by (simp_all add: s3_def)
  have iter: "crawl_iter e cfg s = Inr s'"
    unfolding s'_def s3_def page_type page_url
    by (rule crawl_iter_page [OF head fetch delay norm])
  have ext: "extract_log s' =
         (if page_type = ''detail'' \<or> (scrape_url_globs cfg = [] \<and> page_type \<noteq> ''pagination'')
          then extract_log s @ [page_url] else extract_log s)"
    unfolding s'_def by (simp only: discover_links_fields extract_page_extract_log s3)
  have res: "results s' =
         (if page_type = ''detail'' \<or> (scrape_url_globs cfg = [] \<and> page_type \<noteq> ''pagination'')
          then (case parse_metadata e html page_url of
                  Inl err \<Rightarrow> results s | Inr meta \<Rightarrow> results s @ [meta])
          else results s)"
    unfolding s'_def by (simp only: discover_links_fields extract_page_results s3)
  have lnk: "links_log s' =
         (if page_type = ''pagination'' \<or> page_type = ''unknown''
          then links_log s @ [page_url] else links_log s)"
    unfolding s'_def by (simp only: discover_links_links_log extract_page_fields s3)
  have tv: "to_visit s' =
         (if page_type = ''pagination'' \<or> page_type = ''unknown''
          then (case find_links e html page_url of
                  Inl err \<Rightarrow> rest
                | Inr links \<Rightarrow> enqueue_links e cfg page_url (insert u (visited s)) links rest)
          else rest)"
    unfolding s'_def by (simp only: discover_links_to_visit extract_page_fields s3)
  have both: "scrape_url_globs cfg = [] \<and> pagination_url_globs cfg = [] \<longrightarrow>
           page_type = ''unknown'' \<and> extract_log s' = extract_log s @ [page_url]
           \<and> links_log s' = links_log s @ [page_url]
           \<and> (\<forall>links pp. find_links e html page_url = Inr links
                  \<and> (\<forall>l \<in> set links. \<exists>n. normalize_url e (Some l) = Inr n)
                  \<and> (\<forall>l \<in> set links. \<forall>m. norm_link e l = Some m
                        \<longrightarrow> (\<exists>p. urlparse e m = Inr p))
                  \<and> urlparse e page_url = Inr pp
                \<longrightarrow> to_visit s' = rest @ map (\<lambda>m. (m, Some page_url))
                      (filter (\<lambda>m. m \<notin> insert u (visited s)
                                 \<and> \<not> should_ignore e m (ignore_url_globs cfg)
                                 \<and> netloc_of e m = netloc_of e page_url)
                         (List.map_filter (norm_link e) links)))"
  proof (intro impI conjI allI)
    assume globs: "scrape_url_globs cfg = [] \<and> pagination_url_globs cfg = []"
    show unknown: "page_type = ''unknown''"
      using globs page_type by (simp add: classify_url_no_globs)
    show "extract_log s' = extract_log s @ [page_url]"
      using ext globs unknown by simp
    show "links_log s' = links_log s @ [page_url]"
      using lnk unknown by simp
    fix links pp
    assume found: "find_links e html page_url = Inr links
        \<and> (\<forall>l \<in> set links. \<exists>n. normalize_url e (Some l) = Inr n)
        \<and> (\<forall>l \<in> set links. \<forall>m. norm_link e l = Some m \<longrightarrow> (\<exists>p. urlparse e m = Inr p))
        \<and> urlparse e page_url = Inr pp"
    have pol: "enqueue_policy e cfg page_url (insert u (visited s))
        = (\<lambda>m. m \<notin> insert u (visited s) \<and> \<not> should_ignore e m (ignore_url_globs cfg)
                \<and> netloc_of e m = netloc_of e page_url)"
      using globs by (auto simp: fun_eq_iff enqueue_policy_no_globs)
    from found have f: "find_links e html page_url = Inr links"
        "\<forall>l \<in> set links. \<exists>n. normalize_url e (Some l) = Inr n"
        "\<forall>l \<in> set links. \<forall>m. norm_link e l = Some m \<longrightarrow> (\<exists>p. urlparse e m = Inr p)"
        "urlparse e page_url = Inr pp"
      by blast+
    have "to_visit s' = rest @ map (\<lambda>m. (m, Some page_url))
        (filter (enqueue_policy e cfg page_url (insert u (visited s)))
           (List.map_filter (norm_link e) links))"
      unfolding s'_def discover_links_policy [OF f] unknown
      by (simp only: extract_page_fields s3 simp_thms if_True)
    then show "to_visit s' = rest @ map (\<lambda>m. (m, Some page_url))
        (filter (\<lambda>m. m \<notin> insert u (visited s) \<and> \<not> should_ignore e m (ignore_url_globs cfg)
                     \<and> netloc_of e m = netloc_of e page_url)
           (List.map_filter (norm_link e) links))"
      by (simp only: pol)
  qed
  show ?thesis
    by (rule exI [of _ s'],
        rule conjI [OF iter conjI [OF ext conjI [OF res conjI [OF lnk conjI [OF tv both]]]]])
qed

theorem extraction_policy_witness:
  "\<exists>s'. crawl_iter ex_env ex_open_cfg (init_state [(''http://e.com/'', None)]) = Inr s'
      \<and> extract_log s' = [''http://e.com/'']
      \<and> results s' = [\<lparr>rec_url = ''http://e.com/'', rec_title = None, rec_description = None,
                        rec_heading = None, rec_article = None\<rparr>]
      \<and> links_log s' = [''http://e.com/'']
      \<and> to_visit s' = [(''http://e.com/a'', Some ''http://e.com/''),
                       (''http://e.com/x'', Some ''http://e.com/''),
                       (''http://e.com/gone'', Some ''http://e.com/'')]"
proof -
  define s where "s = init_state [(''http://e.com/'', None)]"
  define links where
    "links = [''http://e.com/a'', ''http://e.com/x'', ''http://e.com/gone'', ''http://o.org/b'']"
  have head: "to_visit s = (''http://e.com/'', None) # []" "''http://e.com/'' \<noteq> []"
      "''http://e.com/'' \<notin> visited s"
      "\<not> should_ignore ex_env ''http://e.com/'' (ignore_url_globs ex_open_cfg)"
    by (simp_all add: s_def init_state_def ex_globs)
  have fetch: "fetch_html ex_env (length (fetch_log s)) ''http://e.com/''
        = Inr (''seed'', ''http://e.com/'', 200)" "(200::int) < 400" "''seed'' \<noteq> []"
    by (simp_all add: ex_fetch)
  have page_url: "''http://e.com/'' = the (py_or (Some ''http://e.com/'') (Some ''http://e.com/''))"
    by (simp add: py_or_def)
  have page_type: "''unknown'' = classify_url ex_env ''http://e.com/''
      (scrape_url_globs ex_open_cfg) (pagination_url_globs ex_open_cfg)"
    by (simp add: ex_globs)
  have logs: "extract_log s = []" "links_log s = []" "results s = []" "visited s = {}"
    by (simp_all add: s_def init_state_def)
  have norm_links: "norm_link ex_env ''http://e.com/a'' = Some ''http://e.com/a''"
      "norm_link ex_env ''http://e.com/x'' = Some ''http://e.com/x''"
      "norm_link ex_env ''http://e.com/gone'' = Some ''http://e.com/gone''"
      "norm_link ex_env ''http://o.org/b'' = Some ''http://o.org/b''"
    by (simp_all add: norm_link_def ex_normalize)
  have found: "find_links ex_env ''seed'' ''http://e.com/'' = Inr links
      \<and> (\<forall>l \<in> set links. \<exists>n. normalize_url ex_env (Some l) = Inr n)
      \<and> (\<forall>l \<in> set links. \<forall>m. norm_link ex_env l = Some m \<longrightarrow> (\<exists>p. urlparse ex_env m = Inr p))
      \<and> urlparse ex_env ''http://e.com/''
          = Inr \<lparr>scheme = ''http'', netloc = ''e.com'', path = ''/'', params = [], query = [],
                 fragment = []\<rparr>"
    by (simp add: links_def ex_find_links ex_normalize norm_links ex_urlparse)
  have kept: "filter (\<lambda>m. m \<notin> insert ''http://e.com/'' (visited s)
                    \<and> \<not> should_ignore ex_env m (ignore_url_globs ex_open_cfg)
                    \<and> netloc_of ex_env m = netloc_of ex_env ''http://e.com/'')
         (List.map_filter (norm_link ex_env) links)
      = [''http://e.com/a'', ''http://e.com/x'', ''http://e.com/gone'']"
    by (simp add: links_def map_filter_simps norm_links ex_globs netloc_of_def ex_urlparse logs)
  from extraction_policy [OF head fetch ex_delay(2) ex_normalize(2) page_url page_type]
  obtain s' where s': "crawl_iter ex_env ex_open_cfg s = Inr s'"
      "extract_log s' =
         (if ''unknown'' = ''detail''
             \<or> (scrape_url_globs ex_open_cfg = [] \<and> ''unknown'' \<noteq> ''pagination'')
          then extract_log s @ [''http://e.com/''] else extract_log s)"
      "results s' =
         (if ''unknown'' = ''detail''
             \<or> (scrape_url_globs ex_open_cfg = [] \<and> ''unknown'' \<noteq> ''pagination'')
          then (case parse_metadata ex_env ''seed'' ''http://e.com/'' of
                  Inl err \<Rightarrow> results s | Inr meta \<Rightarrow> results s @ [meta])
          else results s)"
      "links_log s' =
         (if ''unknown'' = ''pagination'' \<or> ''unknown'' = ''unknown''
          then links_log s @ [''http://e.com/''] else links_log s)"
    and disc: "scrape_url_globs ex_open_cfg = [] \<and> pagination_url_globs ex_open_cfg = [] \<longrightarrow>
        (\<forall>links pp. find_links ex_env ''seed'' ''http://e.com/'' = Inr links
            \<and> (\<forall>l \<in> set links. \<exists>n. normalize_url ex_env (Some l) = Inr n)
            \<and> (\<forall>l \<in> set links. \<forall>m. norm_link ex_env l = Some m
                  \<longrightarrow> (\<exists>p. urlparse ex_env m = Inr p))
            \<and> urlparse ex_env ''http://e.com/'' = Inr pp
          \<longrightarrow> to_visit s' = [] @ map (\<lambda>m. (m, Some ''http://e.com/''))
                (filter (\<lambda>m. m \<notin> insert ''http://e.com/'' (visited s)
                           \<and> \<not> should_ignore ex_env m (ignore_url_globs ex_open_cfg)
                           \<and> netloc_of ex_env m = netloc_of ex_env ''http://e.com/'')
                   (List.map_filter (norm_link ex_env) links)))"
    by blast
  have "scrape_url_globs ex_open_cfg = [] \<and> pagination_url_globs ex_open_cfg = []"
    by (simp add: ex_cfg_sel)
  with disc found have "to_visit s' = [] @ map (\<lambda>m. (m, Some ''http://e.com/''))
      (filter (\<lambda>m. m \<notin> insert ''http://e.com/'' (visited s)
                 \<and> \<not> should_ignore ex_env m (ignore_url_globs ex_open_cfg)
                 \<and> netloc_of ex_env m = netloc_of ex_env ''http://e.com/'')
         (List.map_filter (norm_link ex_env) links))"
    by blast
  then have "to_visit s' = [(''http://e.com/a'', Some ''http://e.com/''),
      (''http://e.com/x'', Some ''http://e.com/''), (''http://e.com/gone'', Some ''http://e.com/'')]"
    by (simp only: kept list.map append_Nil)
  with s' show ?thesis
    unfolding s_def [symmetric] by (simp add: ex_cfg_sel logs ex_parse_metadata)
qed

text \<open>
  Claim C6, as amended: on a page classified "pagination" or "unknown" (fetched as in
  claim C5), the links appended to the frontier are, in order, exactly the normalized links
  that are not visited, match no ignore pattern, and classify "detail" or "pagination", or
  classify "unknown" and have the network location of the page: the \<open>netloc\<close> strings of
  the two URLs are equal, user information, the host as it is written and the port
  included. On a page classified "detail" no link is followed. (The loop stops at a link on
  which URL parsing raises; the theorem is about pages where none does.)
\<close>

theorem link_enqueue_policy:
  assumes head: "to_visit s = (u, r) # rest" "u \<noteq> []" "u \<notin> visited s"
      "\<not> should_ignore e u (ignore_url_globs cfg)"
    and fetch: "fetch_html e (length (fetch_log s)) u = Inr (html, final_url, status)"
      "status < 400" "html \<noteq> []"
    and delay: "polite_delay e cfg = Inr ()"
    and norm: "normalize_url e (Some final_url) = Inr n"
    and page_url: "page_url = the (py_or n (Some u))"
    and page_type: "page_type = classify_url e page_url (scrape_url_globs cfg) (pagination_url_globs cfg)"
    and links: "find_links e html page_url = Inr links"
    and no_raise: "\<forall>l \<in> set links. \<exists>n. normalize_url e (Some l) = Inr n"
      "\<forall>l \<in> set links. \<forall>m. norm_link e l = Some m \<longrightarrow> (\<exists>p. urlparse e m = Inr p)"
      "urlparse e page_url = Inr pp"
  shows "\<exists>s'. crawl_iter e cfg s = Inr s'
     \<and> to_visit s' =
         (if page_type = ''pagination'' \<or> page_type = ''unknown''
          then rest @ map (\<lambda>m. (m, Some page_url))
                 (filter (enqueue_policy e cfg page_url (insert u (visited s)))
                    (List.map_filter (norm_link e) links))
          else rest)
     \<and> (page_type = ''detail'' \<longrightarrow> to_visit s' = rest \<and> links_log s' = links_log s)"
proof -
  define s3 where "s3 = s\<lparr>to_visit := rest, visited := insert u (visited s),
      num_requests := num_requests s + 1, fetch_log := fetch_log s @ [(u, True)]\<rparr>"
  define s' where "s' = discover_links e cfg page_type html page_url
      (extract_page e cfg page_type html page_url s3)"
  have s3: "to_visit s3 = rest" "visited s3 = insert u (visited s)" "links_log s3 = links_log s"
    by (simp_all add: s3_def)
  have iter: "crawl_iter e cfg s = Inr s'"
    unfolding s'_def s3_def page_type page_url
    by (rule crawl_iter_page [OF head fetch delay norm])
  have enq: "enqueue_links e cfg page_url (insert u (visited s)) links rest
     = rest @ map (\<lambda>m. (m, Some page_url))
           (filter (enqueue_policy e cfg page_url (insert u (visited s)))
              (List.map_filter (norm_link e) links))"
    using no_raise by (intro enqueue_links_policy [where pp = pp]) blast+
  have tv: "to_visit s' =
         (if page_type = ''pagination'' \<or> page_type = ''unknown''
          then rest @ map (\<lambda>m. (m, Some page_url))
                 (filter (enqueue_policy e cfg page_url (insert u (visited s)))
                    (List.map_filter (norm_link e) links))
          else rest)"
    unfolding s'_def
    by (simp only: discover_links_to_visit extract_page_fields s3 links sum.case enq)
  have lnk: "links_log s' =
         (if page_type = ''pagination'' \<or> page_type = ''unknown''
          then links_log s @ [page_url] else links_log s)"
    unfolding s'_def by (simp only: discover_links_links_log extract_page_fields s3)
  have detail: "to_visit s' = rest \<and> links_log s' = links_log s" if "page_type = ''detail''"
    using tv lnk that by simp
  from iter tv detail show ?thesis
    by blast
qed

theorem link_enqueue_policy_witness:
  "\<exists>s'. crawl_iter ex_env ex_cfg (init_state ex_q0) = Inr s'
      \<and> to_visit s' = [(''http://e.com/x'', None), (''http://e.com/'', None),
                       (''http://e.com/a'', Some ''http://e.com/''),
                       (''http://e.com/gone'', Some ''http://e.com/'')]"
proof -
  define s where "s = init_state ex_q0"
  define links where
    "links = [''http://e.com/a'', ''http://e.com/x'', ''http://e.com/gone'', ''http://o.org/b'']"
  have head: "to_visit s = (''http://e.com/'', None)
        # [(''http://e.com/x'', None), (''http://e.com/'', None)]"
      "''http://e.com/'' \<noteq> []" "''http://e.com/'' \<notin> visited s"
      "\<not> should_ignore ex_env ''http://e.com/'' (ignore_url_globs ex_cfg)"
    by (simp_all add: s_def init_state_def ex_q0_def ex_globs)
  have fetch: "fetch_html ex_env (length (fetch_log s)) ''http://e.com/''
        = Inr (''seed'', ''http://e.com/'', 200)" "(200::int) < 400" "''seed'' \<noteq> []"
    by (simp_all add: ex_fetch)
  have page_url: "''http://e.com/'' = the (py_or (Some ''http://e.com/'') (Some ''http://e.com/''))"
    by (simp add: py_or_def)
  have page_type: "''unknown'' = classify_url ex_env ''http://e.com/''
      (scrape_url_globs ex_cfg) (pagination_url_globs ex_cfg)"
    by (simp add: ex_globs)
  have found: "find_links ex_env ''seed'' ''http://e.com/'' = Inr links"
    by (simp add: ex_find_links links_def)
  have norm_links: "norm_link ex_env ''http://e.com/a'' = Some ''http://e.com/a''"
      "norm_link ex_env ''http://e.com/x'' = Some ''http://e.com/x''"
      "norm_link ex_env ''http://e.com/gone'' = Some ''http://e.com/gone''"
      "norm_link ex_env ''http://o.org/b'' = Some ''http://o.org/b''"
    by (simp_all add: norm_link_def ex_normalize)
  have no_raise: "\<forall>l \<in> set links. \<exists>n. normalize_url ex_env (Some l) = Inr n"
      "\<forall>l \<in> set links. \<forall>m. norm_link ex_env l = Some m \<longrightarrow> (\<exists>p. urlparse ex_env m = Inr p)"
    by (simp_all add: links_def ex_normalize norm_links ex_urlparse)
  have policy: "filter (enqueue_policy ex_env ex_cfg ''http://e.com/''
        (insert ''http://e.com/'' (visited s))) (List.map_filter (norm_link ex_env) links)
      = [''http://e.com/a'', ''http://e.com/gone'']"
    by (simp add: links_def map_filter_simps norm_links enqueue_policy_def ex_globs
        netloc_of_def ex_urlparse s_def init_state_def)
  from link_enqueue_policy [OF head fetch ex_delay(1) ex_normalize(2) page_url page_type found
      no_raise ex_urlparse(1)]
  show ?thesis
    unfolding s_def [symmetric] by (simp add: policy)
qed

text \<open>The claim as stated fails in the crawl that starts at \<open>http://e.com/list\<close>: the
  link \<open>http://e.com:80/p\<close> of that page classifies "unknown", is not visited, matches no
  ignore pattern and has the network host of the page, \<open>e.com\<close>, and it is not enqueued,
  because the network locations \<open>e.com:80\<close> and \<open>e.com\<close> differ.\<close>

theorem same_host_link_dropped_counterexample:
  "seed ex_env (start_urls ex_list_cfg) [] = Inr [(''http://e.com/list'', None)]
   \<and> find_links ex_env ''list'' ''http://e.com/list''
       = Inr [''http://e.com:80/p'', ''http://e.com/q'']
   \<and> classify_url ex_env ''http://e.com/list'' (scrape_url_globs ex_list_cfg)
         (pagination_url_globs ex_list_cfg) = ''unknown''
   \<and> classify_url ex_env ''http://e.com:80/p'' (scrape_url_globs ex_list_cfg)
         (pagination_url_globs ex_list_cfg) = ''unknown''
   \<and> \<not> should_ignore ex_env ''http://e.com:80/p'' (ignore_url_globs ex_list_cfg)
   \<and> host_of ex_env ''http://e.com:80/p'' = Some ''e.com''
   \<and> host_of ex_env ''http://e.com/list'' = Some ''e.com''
   \<and> crawl_iter ex_env ex_list_cfg (init_state [(''http://e.com/list'', None)]) = Inr ex_list_s1
   \<and> to_visit ex_list_s1 = [(''http://e.com/q'', Some ''http://e.com/list'')]"
proof -
  have "classify_url ex_env ''http://e.com/list'' (scrape_url_globs ex_list_cfg)
         (pagination_url_globs ex_list_cfg) = ''unknown''"
      "classify_url ex_env ''http://e.com:80/p'' (scrape_url_globs ex_list_cfg)
         (pagination_url_globs ex_list_cfg) = ''unknown''"
      "\<not> should_ignore ex_env ''http://e.com:80/p'' (ignore_url_globs ex_list_cfg)"
      "to_visit ex_list_s1 = [(''http://e.com/q'', Some ''http://e.com/list'')]"
    by (simp_all add: ex_list_cfg_sel ex_globs ex_list_s1_def)
  with ex_list_seed ex_list_links ex_hosts(2,1) ex_list_iter show ?thesis
    by (intro conjI)
qed

subsection \<open>URL normalisation\<close>

text \<open>
  Claim C7: URL normalisation is idempotent on every input string.

  The code trims before it removes the fragment, so whitespace that stands before a
  fragment survives the first pass and is trimmed by the second:
  \<open>normalize_url("http://a/b #f")\<close> is \<open>"http://a/b "\<close>, whose normal form is
  \<open>"http://a/b"\<close>. The theorem evaluates both passes (\<open>urlsplit\<close> raises on both when it
  rejects the network location \<open>a\<close>).
\<close>

theorem normalize_url_not_idempotent:
  "normalize_url e (Some ''http://a/b #f'')
      = (if netloc_ok e ''a'' then Inr (Some ''http://a/b '') else Inl ValueError)
   \<and> normalize_url e (Some ''http://a/b '')
      = (if netloc_ok e ''a'' then Inr (Some ''http://a/b'') else Inl ValueError)"
  by (simp add: normalize_url_def urldefrag_def urlparse_def urlsplit_def py_strip_def
      isspace_def c0_or_space_def unsafe_byte_def ascii_alpha_def scheme_char_def to_lower_def
      ascii_upper_def ascii_lower_def netloc_delim_def split1_def uses_params_def
      uses_netloc_def urlunparse_def urlunsplit_def Let_def)

subsection \<open>Whitespace normalisation\<close>

text \<open>
  Claim C8, as amended: \<open>_clean_whitespace\<close> collapses every run of whitespace (newlines
  and tabs included) to a single space and trims the ends, so the result is the words of
  the text joined by single spaces and \<open>"  a\n\tb  "\<close> becomes \<open>"a b"\<close>; \<open>None\<close> stays \<open>None\<close>,
  and an empty result is the empty string, not \<open>None\<close>: the empty string and a text of
  whitespace only both give the empty string.
\<close>

theorem clean_whitespace_collapses_and_trims:
  "clean_whitespace (Some text) = Some (join_space (ws_split text))
   \<and> clean_whitespace None = None
   \<and> clean_whitespace (Some (''  a'' @ [CHR 0x0A, CHR 0x09] @ ''b  '')) = Some ''a b''
   \<and> clean_whitespace (Some []) = Some []
   \<and> clean_whitespace (Some [CHR 0x20, CHR 0x0A]) = Some []"
proof -
  have "ws_split [] = []"
    by (simp add: ws_split_Nil_iff)
  then have "clean_whitespace (Some text) = Some (join_space (ws_split text))"
    by (cases "text = []") (simp_all add: clean_whitespace_def strip_sub_ws)
  moreover have "clean_whitespace (Some (''  a'' @ [CHR 0x0A, CHR 0x09] @ ''b  '')) = Some ''a b''"
    by (simp add: clean_whitespace_def py_strip_def isspace_def)
  moreover have "clean_whitespace (Some [CHR 0x20, CHR 0x0A]) = Some []"
    by (simp add: clean_whitespace_def py_strip_def isspace_def)
  ultimately show ?thesis
    by (simp add: clean_whitespace_def)
qed

text \<open>The claim as stated fails: the empty string is returned as it is.\<close>

theorem clean_whitespace_empty_counterexample:
  "clean_whitespace (Some []) \<noteq> None"
  by (simp add: clean_whitespace_def)

subsection \<open>Metadata extraction\<close>




subsection \<open>Termination\<close>

text \<open>
  Claim C10: the crawl loop terminates on every configuration and every sequence of fetch
  and link-discovery outcomes: from every state the loop returns a result, and so does
  \<open>crawl\<close>. Every iteration either raises the counter by one, and then may append finitely
  many entries to the frontier, or leaves the counter, removes exactly the dequeued entry
  and appends nothing; the latter is the case whenever the fetch did not return.
\<close>

theorem crawl_terminates:
  "(\<exists>r. crawl_loop e cfg s = Some r) \<and> (\<exists>r. crawl e cfg = Some r)
   \<and> (\<forall>s'. crawl_iter e cfg s = Inr s' \<longrightarrow>
        (num_requests s' = num_requests s + 1 \<and> (\<exists>new. to_visit s' = tl (to_visit s) @ new))
        \<or> (num_requests s' = num_requests s \<and> to_visit s' = tl (to_visit s)
            \<and> (\<forall>u b. fetch_log s' = fetch_log s @ [(u, b)] \<longrightarrow> \<not> b)))"
proof -
  have C: "\<forall>s'. crawl_iter e cfg s = Inr s' \<longrightarrow>
        (num_requests s' = num_requests s + 1 \<and> (\<exists>new. to_visit s' = tl (to_visit s) @ new))
        \<or> (num_requests s' = num_requests s \<and> to_visit s' = tl (to_visit s)
            \<and> (\<forall>u b. fetch_log s' = fetch_log s @ [(u, b)] \<longrightarrow> \<not> b))"
    using crawl_iter_progress by blast
  show ?thesis
    by (rule conjI [OF crawl_loop_returns conjI [OF crawl_returns C]])
qed

theorem crawl_terminates_witness:
  "(\<exists>r. crawl_loop ex_env ex_cfg ex_s4 = Some r)
   \<and> crawl ex_env ex_cfg = Some (Inr [ex_rec])
   \<and> crawl_iter ex_env ex_cfg ex_s4 = Inr ex_s5
   \<and> num_requests ex_s5 = num_requests ex_s4 \<and> to_visit ex_s5 = tl (to_visit ex_s4)"
proof -
  have "num_requests ex_s5 = num_requests ex_s4" "to_visit ex_s5 = tl (to_visit ex_s4)"
    by (simp_all add: ex_s4_def ex_s5_def)
  with crawl_terminates [of ex_env ex_cfg ex_s4] ex_crawl ex_iter5 show ?thesis
    by blast
qed

end
